theory Spec2Isabelle
  imports Main "HOL-Library.Word"
begin

section \<open>The Messenger of the RPC runtime (yb/rpc/messenger.cc)\<close>

text \<open>
  A shallow embedding of \<^verbatim>\<open>yb::rpc::Messenger\<close>. The Messenger's members are the
  fields of a record; every member function takes the Messenger and returns the
  updated Messenger together with the list of calls it makes on its collaborators
  (reactors, acceptor, scheduler, services, calls, tasks), whose classes live in other
  translation units. A failed \<^verbatim>\<open>CHECK\<close>, a failed \<^verbatim>\<open>DCHECK\<close> of a debug build and a
  division by zero end the process; they are the \<open>Inl\<close> results.

  Record fields carry the member's name without the trailing underscore
  (\<^verbatim>\<open>reactors_\<close> is \<open>reactors\<close>).
\<close>

subsection \<open>Data\<close>

text \<open>\<^verbatim>\<open>IpAddress\<close> and \<^verbatim>\<open>Endpoint\<close>: only equality and the hash are used here.\<close>

datatype ip_address = V4 "32 word" | V6 "128 word"

record endpoint =
  address :: ip_address
  port :: "16 word"

text \<open>A \<^verbatim>\<open>Reactor*\<close>, identified by the index the constructor gives it.\<close>

datatype reactor = Reactor nat

text \<open>The acceptor object and a registered \<^verbatim>\<open>RpcService\<close> (never null, see
  \<^verbatim>\<open>DCHECK(service)\<close>), each identified by a number.\<close>

datatype acceptor = Acceptor nat

datatype rpc_service = RpcService nat

text \<open>\<^verbatim>\<open>Status\<close>: the codes this file produces, with their messages.\<close>

datatype status =
    OK
  | AlreadyPresent string
  | ServiceUnavailable string
  | NetworkError string
  | Aborted string
  | IllegalState string

datatype error_code = ERROR_NO_SUCH_SERVICE

text \<open>Ways in which a call ends the process instead of returning.\<close>

datatype failure = CheckFailed | DCheckFailed | DivisionByZero

record conn_id =
  remote :: endpoint
  idx :: "32 word"

record outbound_call =
  call_id :: nat
  conn :: conn_id

record inbound_call =
  in_call_id :: nat
  service_name :: string

text \<open>\<^verbatim>\<open>int64_t\<close>: 64 bits, read as two's complement by \<open>sint\<close>; \<open>- 1\<close> is the word of
  all ones.\<close>

type_synonym int64 = "64 word"

text \<open>A \<^verbatim>\<open>DelayedTask\<close> as built by \<^verbatim>\<open>ScheduleOnReactor\<close>: the callback, the delay,
  the task id and whether an owning Messenger reference is held.\<close>

record delayed_task =
  func :: nat
  delay :: nat
  task_id :: int64
  has_messenger :: bool

text \<open>What a reactor is asked to run on its own thread. The first is the functor of
  \<^verbatim>\<open>BreakConnectivityWith\<close>: \<^verbatim>\<open>DropWithRemoteAddress(address)\<close>, then
  \<^verbatim>\<open>latch->CountDown()\<close>; a latch object is identified by a number.\<close>

datatype reactor_task =
    DropAndCountDown ip_address nat
  | TransferredTask outbound_call status
  | Delayed delayed_task

text \<open>Calls on collaborators, in the order the Messenger makes them.\<close>

datatype effect =
    Acceptor_Shutdown acceptor
  | Reactor_Shutdown reactor
  | Reactor_Join reactor
  | Scheduler_Shutdown
  | IoThreadPool_Shutdown
  | IoThreadPool_Join
  | Reactor_ScheduleReactorTask reactor reactor_task
  | Reactor_QueueOutboundCall reactor outbound_call
  | Call_Transferred outbound_call status
  | Call_RespondFailure inbound_call error_code status
  | Service_QueueInboundCall rpc_service inbound_call
  | Service_Handle rpc_service inbound_call
  | Task_AbortTask delayed_task status
  | Latch_New nat nat
  | Latch_Wait nat

record messenger =
  name :: string
  reactors :: "reactor list"
  acceptor :: "acceptor option"
  rpc_services :: "string \<rightharpoonup> rpc_service"
  rpc_services_cache :: "string \<rightharpoonup> rpc_service"
  scheduled_tasks :: "int64 \<rightharpoonup> delayed_task"
  next_task_id :: int64
  broken_connectivity :: "ip_address set"
  has_broken_connectivity :: bool
  closing :: bool

subsection \<open>Routing\<close>

text \<open>
  \<^verbatim>\<open>Messenger::RemoteToReactor\<close>. \<^verbatim>\<open>hash_value\<close> of an endpoint is defined outside
  this file and is a parameter; its \<^verbatim>\<open>size_t\<close> result is cut to \<^verbatim>\<open>uint32_t\<close>. The sum
  \<^verbatim>\<open>hashCode + idx\<close> is a sum of two \<^verbatim>\<open>uint32_t\<close>; the remainder is taken against
  \<^verbatim>\<open>reactors_.size()\<close>, and with no reactor the division has no result.
\<close>

definition RemoteToReactor ::
  "(endpoint \<Rightarrow> 64 word) \<Rightarrow> messenger \<Rightarrow> endpoint \<Rightarrow> 32 word \<Rightarrow> failure + reactor" where
  "RemoteToReactor hash_value m rem i =
     (let hashCode = (ucast (hash_value rem) :: 32 word) in
      if length (reactors m) = 0 then Inl DivisionByZero
      else let reactor_idx = unat (hashCode + i) mod length (reactors m)
           in Inr (reactors m ! reactor_idx))"

subsection \<open>Construction\<close>

text \<open>
  Modelled from the spec: the in-class initialisers of the members that the constructor
  does not name are in messenger.h, which is not among the sources; the data model
  gives a registry, a task map and an unreachable set that start empty, no acceptor
  before a listen address is configured, and flags that start false. The first task id
  is a parameter. From the source: the name, and the loop that pushes
  \<^verbatim>\<open>new Reactor(retain_self_, i, bld)\<close> for \<open>i\<close> from 0 up to \<^verbatim>\<open>bld.num_reactors_\<close>, an
  \<^verbatim>\<open>int\<close>.
\<close>

definition Messenger_new :: "string \<Rightarrow> int \<Rightarrow> int64 \<Rightarrow> messenger" where
  "Messenger_new bld_name bld_num_reactors first_task_id =
     \<lparr> name = bld_name,
       reactors = map Reactor [0 ..< nat bld_num_reactors],
       acceptor = None,
       rpc_services = Map.empty,
       rpc_services_cache = Map.empty,
       scheduled_tasks = Map.empty,
       next_task_id = first_task_id,
       broken_connectivity = {},
       has_broken_connectivity = False,
       closing = False \<rparr>"

subsection \<open>Shutdown\<close>

text \<open>
  \<^verbatim>\<open>Messenger::Shutdown\<close>. The first argument of every function with a \<^verbatim>\<open>DCHECK\<close>
  says whether the build has them on. The locked block returns at once when
  \<^verbatim>\<open>closing_\<close> is set; otherwise it sets the flag, checks and clears the registry
  (the snapshot is not republished), swaps the acceptor out and copies the reactor
  list. The calls after the block follow in the source's order.
\<close>

definition Shutdown :: "bool \<Rightarrow> messenger \<Rightarrow> failure + (effect list \<times> messenger)" where
  "Shutdown dchecks m =
     (if closing m then Inr ([], m)
      else if dchecks \<and> dom (rpc_services m) \<noteq> {} then Inl DCheckFailed
      else
        let acc = acceptor m;
            rs = reactors m;
            m' = m\<lparr>closing := True, rpc_services := Map.empty, acceptor := None\<rparr>
        in Inr ((case acc of None \<Rightarrow> [] | Some a \<Rightarrow> [Acceptor_Shutdown a])
                @ map Reactor_Shutdown rs
                @ [Scheduler_Shutdown, IoThreadPool_Shutdown]
                @ map Reactor_Join rs
                @ [IoThreadPool_Join],
                m'))"

subsection \<open>Fault injection\<close>

text \<open>
  \<^verbatim>\<open>Messenger::BreakConnectivityWith\<close>: the flag is stored when the set is empty, then
  the address is inserted; only a new insertion makes a latch of \<^verbatim>\<open>reactors_.size()\<close>
  and schedules on every reactor the task that drops the address and counts the
  latch down. The caller waits on the latch only if there is one. \<open>l\<close> is the latch
  object that \<^verbatim>\<open>new CountDownLatch\<close> would return.
\<close>

definition BreakConnectivityWith ::
  "messenger \<Rightarrow> ip_address \<Rightarrow> nat \<Rightarrow> effect list \<times> messenger" where
  "BreakConnectivityWith m a l =
     (let m1 = (if broken_connectivity m = {} then m\<lparr>has_broken_connectivity := True\<rparr> else m)
      in if a \<notin> broken_connectivity m1
         then (Latch_New l (length (reactors m1))
                 # map (\<lambda>r. Reactor_ScheduleReactorTask r (DropAndCountDown a l)) (reactors m1)
                 @ [Latch_Wait l],
               m1\<lparr>broken_connectivity := insert a (broken_connectivity m1)\<rparr>)
         else ([], m1))"

definition RestoreConnectivityWith :: "messenger \<Rightarrow> ip_address \<Rightarrow> messenger" where
  "RestoreConnectivityWith m a =
     (let m1 = m\<lparr>broken_connectivity := broken_connectivity m - {a}\<rparr>
      in if broken_connectivity m1 = {} then m1\<lparr>has_broken_connectivity := False\<rparr> else m1)"

definition IsArtificiallyDisconnectedFrom :: "messenger \<Rightarrow> ip_address \<Rightarrow> bool" where
  "IsArtificiallyDisconnectedFrom m rem =
     (if has_broken_connectivity m then rem \<in> broken_connectivity m else False)"

subsection \<open>The service registry\<close>

definition UpdateServicesCache :: "messenger \<Rightarrow> messenger" where
  "UpdateServicesCache m = m\<lparr>rpc_services_cache := rpc_services m\<rparr>"

text \<open>
  Modelled from the spec: \<^verbatim>\<open>InsertIfNotPresent\<close> of gutil/map-util.h, which is not
  among the sources: the pair is inserted when the key is absent, and the result says
  whether it was.
\<close>

definition InsertIfNotPresent :: "('k \<rightharpoonup> 'v) \<Rightarrow> 'k \<Rightarrow> 'v \<Rightarrow> bool \<times> ('k \<rightharpoonup> 'v)" where
  "InsertIfNotPresent c k v = (case c k of None \<Rightarrow> (True, c(k \<mapsto> v)) | Some _ \<Rightarrow> (False, c))"

text \<open>\<^verbatim>\<open>Messenger::RegisterService\<close>; the handler is a non-null reference.\<close>

definition RegisterService :: "messenger \<Rightarrow> string \<Rightarrow> rpc_service \<Rightarrow> status \<times> messenger" where
  "RegisterService m sn service =
     (case InsertIfNotPresent (rpc_services m) sn service of
        (True, services') \<Rightarrow> (OK, UpdateServicesCache (m\<lparr>rpc_services := services'\<rparr>))
      | (False, services') \<Rightarrow>
          (AlreadyPresent (''Service '' @ sn @ '' is already present''),
           m\<lparr>rpc_services := services'\<rparr>))"

definition UnregisterAllServices :: "messenger \<Rightarrow> status \<times> messenger" where
  "UnregisterAllServices m = (OK, UpdateServicesCache (m\<lparr>rpc_services := Map.empty\<rparr>))"

text \<open>\<^verbatim>\<open>Messenger::UnregisterService\<close>: \<^verbatim>\<open>erase\<close> returns the number of entries removed.\<close>

definition UnregisterService :: "messenger \<Rightarrow> string \<Rightarrow> status \<times> messenger" where
  "UnregisterService m sn =
     (let erased = (if sn \<in> dom (rpc_services m) then 1 else 0 :: nat);
          m1 = m\<lparr>rpc_services := (rpc_services m)(sn := None)\<rparr>
      in if erased \<noteq> 0 then (OK, UpdateServicesCache m1)
         else (ServiceUnavailable (''service '' @ sn @ '' not registered on '' @ name m), m1))"

text \<open>\<^verbatim>\<open>Messenger::rpc_service\<close> reads the snapshot; \<open>None\<close> is the null pointer.\<close>

definition rpc_service :: "messenger \<Rightarrow> string \<Rightarrow> rpc_service option" where
  "rpc_service m sn = rpc_services_cache m sn"

definition QueueInboundCall :: "messenger \<Rightarrow> inbound_call \<Rightarrow> effect list" where
  "QueueInboundCall m call =
     (case rpc_service m (service_name call) of
        None \<Rightarrow>
          [Call_RespondFailure call ERROR_NO_SUCH_SERVICE
             (ServiceUnavailable
                (''Service '' @ service_name call @ '' not registered on '' @ name m))]
      | Some service \<Rightarrow> [Service_QueueInboundCall service call])"

definition Handle :: "messenger \<Rightarrow> inbound_call \<Rightarrow> effect list" where
  "Handle m call =
     (case rpc_service m (service_name call) of
        None \<Rightarrow>
          [Call_RespondFailure call ERROR_NO_SUCH_SERVICE
             (ServiceUnavailable
                (''Service '' @ service_name call @ '' not registered on '' @ name m))]
      | Some service \<Rightarrow> [Service_Handle service call])"

subsection \<open>Outbound calls\<close>

text \<open>
  \<^verbatim>\<open>Messenger::QueueOutboundCall\<close>: the reactor is selected first; for an address
  marked unreachable a task that calls \<^verbatim>\<open>call->Transferred\<close> with the network error is
  scheduled on that reactor, otherwise the call goes to \<^verbatim>\<open>Reactor::QueueOutboundCall\<close>.
\<close>

definition QueueOutboundCall ::
  "(endpoint \<Rightarrow> 64 word) \<Rightarrow> messenger \<Rightarrow> outbound_call \<Rightarrow> failure + effect list" where
  "QueueOutboundCall hash_value m call =
     (let rem = remote (conn call) in
      case RemoteToReactor hash_value m rem (idx (conn call)) of
        Inl f \<Rightarrow> Inl f
      | Inr r \<Rightarrow>
          if IsArtificiallyDisconnectedFrom m (address rem)
          then Inr [Reactor_ScheduleReactorTask r
                      (TransferredTask call (NetworkError ''TEST: Connectivity is broken''))]
          else Inr [Reactor_QueueOutboundCall r call])"

subsection \<open>Scheduled tasks\<close>

definition RemoveScheduledTask :: "messenger \<Rightarrow> int64 \<Rightarrow> failure + messenger" where
  "RemoveScheduledTask m tid =
     (if tid = - 1 then Inl CheckFailed
      else Inr (m\<lparr>scheduled_tasks := (scheduled_tasks m)(tid := None)\<rparr>))"

text \<open>
  \<^verbatim>\<open>Messenger::AbortOnReactor\<close>: \<^verbatim>\<open>DCHECK(!reactors_.empty())\<close>, then
  \<^verbatim>\<open>CHECK_NE(task_id, -1)\<close>, then the lookup under the task mutex.
\<close>

definition AbortOnReactor :: "bool \<Rightarrow> messenger \<Rightarrow> int64 \<Rightarrow> failure + (effect list \<times> messenger)" where
  "AbortOnReactor dchecks m tid =
     (if dchecks \<and> reactors m = [] then Inl DCheckFailed
      else if tid = - 1 then Inl CheckFailed
      else case scheduled_tasks m tid of
             Some task \<Rightarrow>
               Inr ([Task_AbortTask task (Aborted ''Task aborted by messenger'')],
                    m\<lparr>scheduled_tasks := (scheduled_tasks m)(tid := None)\<rparr>)
           | None \<Rightarrow> Inr ([], m))"

text \<open>
  Modelled from the spec: \<^verbatim>\<open>Reactor::IsCurrentThread\<close> is in reactor.cc, which is not
  among the sources. A reactor runs on exactly one dedicated thread for its whole
  lifetime, so the calling thread is either the thread of one reactor or another
  thread.
\<close>

datatype thread = ReactorThread reactor | OtherThread nat

definition IsCurrentThread :: "thread \<Rightarrow> reactor \<Rightarrow> bool" where
  "IsCurrentThread cur r = (cur = ReactorThread r)"

text \<open>The loop of \<^verbatim>\<open>ScheduleOnReactor\<close> over the reactors: it has no \<^verbatim>\<open>break\<close>, the last
  reactor that answers wins.\<close>

fun find_current :: "thread \<Rightarrow> reactor list \<Rightarrow> reactor option \<Rightarrow> reactor option" where
  "find_current cur [] chosen = chosen"
| "find_current cur (r # rs) chosen =
     find_current cur rs (if IsCurrentThread cur r then Some r else chosen)"

text \<open>
  \<^verbatim>\<open>Messenger::ScheduleOnReactor\<close>, called on thread \<open>cur\<close>; \<open>rnd\<close> is what \<^verbatim>\<open>rand()\<close>
  returns (not negative). \<open>owner\<close> says that \<^verbatim>\<open>msgr\<close> is not null. With no reactor a
  debug build stops at the \<^verbatim>\<open>DCHECK\<close> and any other build divides by zero. The result
  is the task id.
\<close>

definition ScheduleOnReactor ::
  "bool \<Rightarrow> thread \<Rightarrow> nat \<Rightarrow> messenger \<Rightarrow> nat \<Rightarrow> nat \<Rightarrow> bool
     \<Rightarrow> failure + (int64 \<times> effect list \<times> messenger)" where
  "ScheduleOnReactor dchecks cur rnd m fn when owner =
     (if dchecks \<and> reactors m = [] then Inl DCheckFailed
      else
        case (case find_current cur (reactors m) None of
                Some r \<Rightarrow> Inr r
              | None \<Rightarrow>
                  if length (reactors m) = 0 then Inl DivisionByZero
                  else Inr (reactors m ! (rnd mod length (reactors m)))) of
          Inl f \<Rightarrow> Inl f
        | Inr chosen \<Rightarrow>
            let tid = (if owner then next_task_id m else 0);
                m1 = (if owner then m\<lparr>next_task_id := next_task_id m + 1\<rparr> else m);
                task = \<lparr>func = fn, delay = when, task_id = tid, has_messenger = owner\<rparr>;
                m2 = (if owner
                      then m1\<lparr>scheduled_tasks := (scheduled_tasks m1)(tid \<mapsto> task)\<rparr>
                      else m1)
            in Inr (tid, [Reactor_ScheduleReactorTask chosen (Delayed task)], m2))"

subsection \<open>Sequences of calls\<close>

text \<open>
  A call of one of the member functions above, with its arguments. The member functions
  left out write neither the reactor list, the registry, its snapshot, the task map,
  the task-id counter, the unreachable set, its flag nor \<^verbatim>\<open>closing_\<close>:
  \<^verbatim>\<open>ListenAddress\<close>, \<^verbatim>\<open>StartAcceptor\<close> and \<^verbatim>\<open>ShutdownAcceptor\<close> touch the acceptor and the
  outbound addresses only, \<^verbatim>\<open>RegisterInboundSocket\<close> the count of accepted connections,
  and \<^verbatim>\<open>Init\<close>, \<^verbatim>\<open>DumpRunningRpcs\<close> and \<^verbatim>\<open>QueueEventOnAllReactors\<close> only call the
  reactors.
\<close>

datatype call =
    Call_Shutdown
  | Call_BreakConnectivityWith ip_address nat
  | Call_RestoreConnectivityWith ip_address
  | Call_RegisterService string rpc_service
  | Call_UnregisterAllServices
  | Call_UnregisterService string
  | Call_QueueOutboundCall outbound_call
  | Call_QueueInboundCall inbound_call
  | Call_Handle inbound_call
  | Call_RemoveScheduledTask int64
  | Call_AbortOnReactor int64
  | Call_ScheduleOnReactor thread nat nat nat bool

text \<open>The calls a function makes on its collaborators and the Messenger it leaves.\<close>

definition do_call ::
  "bool \<Rightarrow> (endpoint \<Rightarrow> 64 word) \<Rightarrow> messenger \<Rightarrow> call \<Rightarrow> failure + (effect list \<times> messenger)" where
  "do_call dchecks hash_value m c =
     (case c of
        Call_Shutdown \<Rightarrow> Shutdown dchecks m
      | Call_BreakConnectivityWith a l \<Rightarrow> Inr (BreakConnectivityWith m a l)
      | Call_RestoreConnectivityWith a \<Rightarrow> Inr ([], RestoreConnectivityWith m a)
      | Call_RegisterService sn service \<Rightarrow> Inr ([], snd (RegisterService m sn service))
      | Call_UnregisterAllServices \<Rightarrow> Inr ([], snd (UnregisterAllServices m))
      | Call_UnregisterService sn \<Rightarrow> Inr ([], snd (UnregisterService m sn))
      | Call_QueueOutboundCall oc \<Rightarrow>
          (case QueueOutboundCall hash_value m oc of Inl f \<Rightarrow> Inl f | Inr es \<Rightarrow> Inr (es, m))
      | Call_QueueInboundCall ic \<Rightarrow> Inr (QueueInboundCall m ic, m)
      | Call_Handle ic \<Rightarrow> Inr (Handle m ic, m)
      | Call_RemoveScheduledTask tid \<Rightarrow>
          (case RemoveScheduledTask m tid of Inl f \<Rightarrow> Inl f | Inr m' \<Rightarrow> Inr ([], m'))
      | Call_AbortOnReactor tid \<Rightarrow> AbortOnReactor dchecks m tid
      | Call_ScheduleOnReactor cur rnd fn when owner \<Rightarrow>
          (case ScheduleOnReactor dchecks cur rnd m fn when owner of
             Inl f \<Rightarrow> Inl f
           | Inr (tid, es, m') \<Rightarrow> Inr (es, m')))"

text \<open>Calls one after the other; the first failure ends the process.\<close>

fun do_calls ::
  "bool \<Rightarrow> (endpoint \<Rightarrow> 64 word) \<Rightarrow> messenger \<Rightarrow> call list
     \<Rightarrow> failure + (effect list \<times> messenger)" where
  "do_calls dchecks hash_value m [] = Inr ([], m)"
| "do_calls dchecks hash_value m (c # cs) =
     (case do_call dchecks hash_value m c of
        Inl f \<Rightarrow> Inl f
      | Inr (es, m') \<Rightarrow>
          (case do_calls dchecks hash_value m' cs of
             Inl f \<Rightarrow> Inl f
           | Inr (es', m'') \<Rightarrow> Inr (es @ es', m'')))"

text \<open>How many calls of a sequence draw a task id: the calls of \<^verbatim>\<open>ScheduleOnReactor\<close>
  with an owner.\<close>

fun owner_schedules :: "call list \<Rightarrow> nat" where
  "owner_schedules [] = 0"
| "owner_schedules (Call_ScheduleOnReactor cur rnd fn when owner # cs) =
     (if owner then 1 else 0) + owner_schedules cs"
| "owner_schedules (c # cs) = owner_schedules cs"

text \<open>The calls that take entries out of the service registry.\<close>

fun removes_services :: "call \<Rightarrow> bool" where
  "removes_services Call_Shutdown = True"
| "removes_services Call_UnregisterAllServices = True"
| "removes_services (Call_UnregisterService sn) = True"
| "removes_services c = False"

text \<open>The fast-path flag agrees with the set of unreachable addresses.\<close>

definition flag_matches_set :: "messenger \<Rightarrow> bool" where
  "flag_matches_set m = (has_broken_connectivity m \<longleftrightarrow> broken_connectivity m \<noteq> {})"

subsection \<open>Reactor threads and the latch\<close>

text \<open>
  Modelled from the spec: the reactor's task queue and loop (reactor.cc) and
  \<^verbatim>\<open>CountDownLatch\<close> (yb/util/countdown_latch.h) are not among the sources. A reactor
  exposes a thread-safe task queue that any thread may enqueue into and runs the
  queued tasks on its own thread, in the order they were queued; a latch is created
  with a count, \<^verbatim>\<open>CountDown\<close> takes one off and \<^verbatim>\<open>Wait\<close> returns once the count is zero.

  The system is what one caller thread inside a member function and the reactor
  threads share: the tasks queued and not yet run (with the reactor each is queued on,
  oldest first), the \<^verbatim>\<open>DropWithRemoteAddress\<close> calls the reactors have made, the count
  of every latch, and the calls the caller still has to make (\<open>todo\<close>; empty once
  the member function has returned).
\<close>

record system =
  pending :: "(reactor \<times> reactor_task) list"
  dropped :: "(reactor \<times> ip_address) list"
  latch_count :: "nat \<Rightarrow> nat"
  todo :: "effect list"

text \<open>The oldest task queued on a reactor, and the queue without it.\<close>

fun take_first ::
  "reactor \<Rightarrow> (reactor \<times> reactor_task) list
     \<Rightarrow> (reactor_task \<times> (reactor \<times> reactor_task) list) option" where
  "take_first r [] = None"
| "take_first r ((r', t) # q) =
     (if r' = r then Some (t, q)
      else case take_first r q of
             None \<Rightarrow> None
           | Some (t', q') \<Rightarrow> Some (t', (r', t) # q'))"

text \<open>A reactor runs a task. Only the functor of \<^verbatim>\<open>BreakConnectivityWith\<close> acts on what
  the system records.\<close>

definition run_task :: "reactor \<Rightarrow> reactor_task \<Rightarrow> system \<Rightarrow> system" where
  "run_task r t s =
     (case t of
        DropAndCountDown a l \<Rightarrow>
          s\<lparr>dropped := dropped s @ [(r, a)],
            latch_count := (latch_count s)(l := latch_count s l - 1)\<rparr>
      | _ \<Rightarrow> s)"

text \<open>
  What happens next: the caller makes its next call (and cannot get past a
  \<^verbatim>\<open>Wait\<close> on a latch whose count is not zero), a reactor runs its oldest task, or
  another thread queues a task on a reactor. \<open>None\<close>: the step cannot be taken.
\<close>

datatype sched = Caller_Step | Reactor_Run reactor | Other_Schedule reactor reactor_task

definition sys_step :: "system \<Rightarrow> sched \<Rightarrow> system option" where
  "sys_step s ev =
     (case ev of
        Caller_Step \<Rightarrow>
          (case todo s of
             [] \<Rightarrow> None
           | e # es \<Rightarrow>
               (case e of
                  Latch_New l n \<Rightarrow> Some (s\<lparr>latch_count := (latch_count s)(l := n), todo := es\<rparr>)
                | Reactor_ScheduleReactorTask r t \<Rightarrow>
                    Some (s\<lparr>pending := pending s @ [(r, t)], todo := es\<rparr>)
                | Latch_Wait l \<Rightarrow> if latch_count s l = 0 then Some (s\<lparr>todo := es\<rparr>) else None
                | _ \<Rightarrow> Some (s\<lparr>todo := es\<rparr>)))
      | Reactor_Run r \<Rightarrow>
          (case take_first r (pending s) of
             None \<Rightarrow> None
           | Some (t, q) \<Rightarrow> Some (run_task r t (s\<lparr>pending := q\<rparr>)))
      | Other_Schedule r t \<Rightarrow> Some (s\<lparr>pending := pending s @ [(r, t)]\<rparr>))"

fun sys_run :: "system \<Rightarrow> sched list \<Rightarrow> system option" where
  "sys_run s [] = Some s"
| "sys_run s (ev # evs) = (case sys_step s ev of None \<Rightarrow> None | Some s' \<Rightarrow> sys_run s' evs)"

text \<open>A task that counts latch \<open>l\<close> down, and a step of another thread that queues one.\<close>

fun on_latch :: "nat \<Rightarrow> reactor_task \<Rightarrow> bool" where
  "on_latch l (DropAndCountDown a l') = (l' = l)"
| "on_latch l _ = False"

fun queues_on_latch :: "nat \<Rightarrow> sched \<Rightarrow> bool" where
  "queues_on_latch l (Other_Schedule r t) = on_latch l t"
| "queues_on_latch l _ = False"

text \<open>The number of queued tasks that count latch \<open>l\<close> down.\<close>

definition on_latch_count :: "nat \<Rightarrow> (reactor \<times> reactor_task) list \<Rightarrow> nat" where
  "on_latch_count l q = length (filter (\<lambda>(r, t). on_latch l t) q)"

text \<open>
  Where a call of \<^verbatim>\<open>BreakConnectivityWith\<close> that made latch \<open>l\<close> for address \<open>a\<close> and the
  reactors \<open>rs\<close> can be: returned, with the address dropped by every reactor; past
  the creation of the latch, the task queued on the reactors \<open>sent\<close> and still to be
  queued on the reactors \<open>rem\<close>, the count of the latch being the tasks still to queue
  or to run; or before the creation of the latch.
\<close>

definition drop_inv ::
  "ip_address \<Rightarrow> nat \<Rightarrow> reactor list \<Rightarrow> system \<Rightarrow> bool" where
  "drop_inv a l rs s =
     ((todo s = [] \<and> (\<forall>r \<in> set rs. (r, a) \<in> set (dropped s)))
      \<or> (\<exists>sent rem. rs = sent @ rem
            \<and> todo s = map (\<lambda>r. Reactor_ScheduleReactorTask r (DropAndCountDown a l)) rem
                         @ [Latch_Wait l]
            \<and> latch_count s l = length rem + on_latch_count l (pending s)
            \<and> (\<forall>(r, t) \<in> set (pending s). on_latch l t \<longrightarrow> t = DropAndCountDown a l)
            \<and> (\<forall>r \<in> set sent. (r, DropAndCountDown a l) \<in> set (pending s)
                                 \<or> (r, a) \<in> set (dropped s)))
      \<or> (todo s = Latch_New l (length rs)
                     # map (\<lambda>r. Reactor_ScheduleReactorTask r (DropAndCountDown a l)) rs
                     @ [Latch_Wait l]
           \<and> on_latch_count l (pending s) = 0))"

section \<open>Properties\<close>

subsection \<open>What no member function changes\<close>

lemma do_call_reactors:
  "do_call dchecks hv m c = Inr (es, m') \<Longrightarrow> reactors m' = reactors m"
  by (cases c)
     (auto simp: do_call_def Shutdown_def BreakConnectivityWith_def RestoreConnectivityWith_def
        RegisterService_def UnregisterAllServices_def UnregisterService_def
        UpdateServicesCache_def InsertIfNotPresent_def RemoveScheduledTask_def
        AbortOnReactor_def ScheduleOnReactor_def Let_def
        split: if_splits option.splits sum.splits prod.splits)

lemma do_calls_reactors:
  "do_calls dchecks hv m cs = Inr (es, m') \<Longrightarrow> reactors m' = reactors m"
proof (induction cs arbitrary: m es)
  case Nil
  then show ?case by simp
next
  case (Cons c cs)
  then show ?case
    by (auto split: sum.splits prod.splits dest: do_call_reactors)
qed

lemma reactors_Messenger_new:
  "reactors (Messenger_new nm n c) = map Reactor [0 ..< nat n]"
  by (simp add: Messenger_new_def)

lemma RemoteToReactor_built:
  assumes "1 \<le> n" and "reactors m = map Reactor [0 ..< nat n]"
  shows "RemoteToReactor hv m rem i
           = Inr (Reactor (unat ((ucast (hv rem) :: 32 word) + i) mod nat n))"
proof -
  have pos: "0 < nat n" using assms(1) by simp
  then have "unat ((ucast (hv rem) :: 32 word) + i) mod nat n < nat n"
    by simp
  then show ?thesis
    using pos by (simp add: RemoteToReactor_def assms(2) Let_def)
qed

subsection \<open>Routing\<close>

text \<open>
  C1. In a Messenger built with \<open>n \<ge> 1\<close> reactors, after any sequence of calls of
  the member functions above, \<^verbatim>\<open>RemoteToReactor\<close> maps a remote endpoint and a connection index
  to the reactor at position \<open>(hash + index) mod n\<close> of the list the constructor
  built (the reactor with that index), where hash is the \<^verbatim>\<open>uint32_t\<close> the code cuts
  \<^verbatim>\<open>hash_value(remote)\<close> to and the sum is the \<^verbatim>\<open>uint32_t\<close> sum the code computes. The
  right-hand side mentions neither the calls made before nor the state, so every
  call with the same pair selects the same reactor.
\<close>

theorem RemoteToReactor_stable:
  assumes "1 \<le> n"
    and "do_calls dchecks hv (Messenger_new nm n c) cs = Inr (es, m)"
  shows "RemoteToReactor hv m rem i
           = Inr (Reactor (unat ((ucast (hv rem) :: 32 word) + i) mod nat n))"
proof -
  have "reactors m = map Reactor [0 ..< nat n]"
    using do_calls_reactors [OF assms(2)] by (simp add: reactors_Messenger_new)
  with assms(1) show ?thesis by (rule RemoteToReactor_built)
qed

theorem RemoteToReactor_stable_witness:
  "(1::int) \<le> 3
   \<and> do_calls False (\<lambda>e. 7) (Messenger_new ''m'' 3 1)
        [Call_RegisterService ''S'' (RpcService 0), Call_RestoreConnectivityWith (V4 1)]
      = Inr ([], RestoreConnectivityWith
                   (snd (RegisterService (Messenger_new ''m'' 3 1) ''S'' (RpcService 0))) (V4 1))
   \<and> RemoteToReactor (\<lambda>e. 7)
        (RestoreConnectivityWith
           (snd (RegisterService (Messenger_new ''m'' 3 1) ''S'' (RpcService 0))) (V4 1))
        \<lparr>address = V4 9, port = 7100\<rparr> 2
      = Inr (Reactor 0)"
proof -
  have n: "(1::int) \<le> 3" by simp
  have run: "do_calls False (\<lambda>e. 7) (Messenger_new ''m'' 3 1)
        [Call_RegisterService ''S'' (RpcService 0), Call_RestoreConnectivityWith (V4 1)]
      = Inr ([], RestoreConnectivityWith
                   (snd (RegisterService (Messenger_new ''m'' 3 1) ''S'' (RpcService 0))) (V4 1))"
    by (simp add: do_call_def)
  show ?thesis
    using n run RemoteToReactor_stable [OF n run, of "\<lparr>address = V4 9, port = 7100\<rparr>" 2]
    by simp
qed

subsection \<open>Shutdown\<close>

lemma Shutdown_closing: "closing m \<Longrightarrow> Shutdown dchecks m = Inr ([], m)"
  by (simp add: Shutdown_def)

lemma do_call_closing:
  "do_call dchecks hv m c = Inr (es, m') \<Longrightarrow> closing m \<Longrightarrow> closing m'"
  by (cases c)
     (auto simp: do_call_def Shutdown_def BreakConnectivityWith_def RestoreConnectivityWith_def
        RegisterService_def UnregisterAllServices_def UnregisterService_def
        UpdateServicesCache_def InsertIfNotPresent_def RemoveScheduledTask_def
        AbortOnReactor_def ScheduleOnReactor_def Let_def
        split: if_splits option.splits sum.splits prod.splits)

lemma do_calls_closing:
  "do_calls dchecks hv m cs = Inr (es, m') \<Longrightarrow> closing m \<Longrightarrow> closing m'"
proof (induction cs arbitrary: m es)
  case Nil
  then show ?case by simp
next
  case (Cons c cs)
  from Cons.prems(1) obtain es1 m1 es2 where
    1: "do_call dchecks hv m c = Inr (es1, m1)" and
    2: "do_calls dchecks hv m1 cs = Inr (es2, m')"
    by (auto split: sum.splits prod.splits)
  from do_call_closing [OF 1 Cons.prems(2)] have "closing m1" .
  with 2 show ?case by (rule Cons.IH)
qed

lemma do_calls_Shutdown_closing:
  "closing m \<Longrightarrow> do_calls dchecks hv m (replicate k Call_Shutdown) = Inr ([], m)"
  by (induction k) (simp_all add: do_call_def Shutdown_closing)

text \<open>
  C2, as stated, fails: in a build with \<^verbatim>\<open>DCHECK\<close>s on, the first \<^verbatim>\<open>Shutdown\<close> of a
  Messenger whose registry still holds a service stops the process at
  \<^verbatim>\<open>DCHECK(rpc_services_.empty())\<close> instead of returning.
\<close>

theorem Shutdown_counterexample:
  "do_calls True (\<lambda>e. 0) (Messenger_new ''m'' 4 1)
     [Call_RegisterService ''S'' (RpcService 0), Call_Shutdown] = Inl DCheckFailed"
  by (simp add: do_call_def RegisterService_def InsertIfNotPresent_def Messenger_new_def
        UpdateServicesCache_def Shutdown_def)

text \<open>
  C2, amended. On a Messenger that is not closing and whose registry is empty (or in
  a build without \<^verbatim>\<open>DCHECK\<close>s), the first \<^verbatim>\<open>Shutdown\<close> sets \<^verbatim>\<open>closing_\<close>, clears the
  registry and takes the acceptor out, and it shuts down the acceptor (if any), every
  reactor, the scheduler and the IO thread pool, then joins every reactor and the
  pool, in this order. A \<^verbatim>\<open>Shutdown\<close> of a closing Messenger makes no call and leaves
  the Messenger as it is, and no member function resets \<^verbatim>\<open>closing_\<close>: whatever is called
  after the first \<^verbatim>\<open>Shutdown\<close>, a later \<^verbatim>\<open>Shutdown\<close> does nothing. So any number \<open>k + 1\<close>
  of calls in a row runs the sequence exactly once, and every call returns.
\<close>

theorem Shutdown_idempotent:
  assumes "\<not> closing m" and "dchecks \<longrightarrow> dom (rpc_services m) = {}"
  shows "Shutdown dchecks m =
           Inr ((case acceptor m of None \<Rightarrow> [] | Some a \<Rightarrow> [Acceptor_Shutdown a])
                @ map Reactor_Shutdown (reactors m)
                @ [Scheduler_Shutdown, IoThreadPool_Shutdown]
                @ map Reactor_Join (reactors m)
                @ [IoThreadPool_Join],
                m\<lparr>closing := True, rpc_services := Map.empty, acceptor := None\<rparr>)
       \<and> Shutdown dchecks (m\<lparr>closing := True, rpc_services := Map.empty, acceptor := None\<rparr>)
           = Inr ([], m\<lparr>closing := True, rpc_services := Map.empty, acceptor := None\<rparr>)
       \<and> (\<forall>cs es m2.
             do_calls dchecks hv
               (m\<lparr>closing := True, rpc_services := Map.empty, acceptor := None\<rparr>) cs
               = Inr (es, m2)
             \<longrightarrow> Shutdown dchecks m2 = Inr ([], m2))
       \<and> do_calls dchecks hv m (replicate (Suc k) Call_Shutdown) =
           Inr ((case acceptor m of None \<Rightarrow> [] | Some a \<Rightarrow> [Acceptor_Shutdown a])
                @ map Reactor_Shutdown (reactors m)
                @ [Scheduler_Shutdown, IoThreadPool_Shutdown]
                @ map Reactor_Join (reactors m)
                @ [IoThreadPool_Join],
                m\<lparr>closing := True, rpc_services := Map.empty, acceptor := None\<rparr>)"
proof -
  let ?m' = "m\<lparr>closing := True, rpc_services := Map.empty, acceptor := None\<rparr>"
  have first: "Shutdown dchecks m =
           Inr ((case acceptor m of None \<Rightarrow> [] | Some a \<Rightarrow> [Acceptor_Shutdown a])
                @ map Reactor_Shutdown (reactors m)
                @ [Scheduler_Shutdown, IoThreadPool_Shutdown]
                @ map Reactor_Join (reactors m)
                @ [IoThreadPool_Join], ?m')"
    using assms by (simp add: Shutdown_def Let_def)
  have cl: "closing ?m'" by simp
  have later: "Shutdown dchecks ?m' = Inr ([], ?m')"
    using cl by (rule Shutdown_closing)
  have rest: "do_calls dchecks hv ?m' (replicate k Call_Shutdown) = Inr ([], ?m')"
    using cl by (rule do_calls_Shutdown_closing)
  have many: "do_calls dchecks hv m (replicate (Suc k) Call_Shutdown) =
           Inr ((case acceptor m of None \<Rightarrow> [] | Some a \<Rightarrow> [Acceptor_Shutdown a])
                @ map Reactor_Shutdown (reactors m)
                @ [Scheduler_Shutdown, IoThreadPool_Shutdown]
                @ map Reactor_Join (reactors m)
                @ [IoThreadPool_Join], ?m')"
    by (simp add: do_call_def first rest)
  have after: "Shutdown dchecks m2 = Inr ([], m2)"
    if "do_calls dchecks hv ?m' cs = Inr (es, m2)" for cs es m2
  proof -
    from that cl have "closing m2" by (rule do_calls_closing)
    then show ?thesis by (rule Shutdown_closing)
  qed
  from first later after many show ?thesis by blast
qed

theorem Shutdown_idempotent_witness:
  "\<not> closing ((Messenger_new ''m'' 2 1)\<lparr>acceptor := Some (Acceptor 0)\<rparr>)
   \<and> dom (rpc_services ((Messenger_new ''m'' 2 1)\<lparr>acceptor := Some (Acceptor 0)\<rparr>)) = {}
   \<and> do_calls True (\<lambda>e. 0) ((Messenger_new ''m'' 2 1)\<lparr>acceptor := Some (Acceptor 0)\<rparr>)
        [Call_Shutdown, Call_Shutdown, Call_Shutdown] =
       Inr ([Acceptor_Shutdown (Acceptor 0),
             Reactor_Shutdown (Reactor 0), Reactor_Shutdown (Reactor 1),
             Scheduler_Shutdown, IoThreadPool_Shutdown,
             Reactor_Join (Reactor 0), Reactor_Join (Reactor 1),
             IoThreadPool_Join],
            (Messenger_new ''m'' 2 1)\<lparr>closing := True\<rparr>)"
proof -
  let ?m = "(Messenger_new ''m'' 2 1)\<lparr>acceptor := Some (Acceptor 0)\<rparr>"
  have h1: "\<not> closing ?m" by (simp add: Messenger_new_def)
  have h2: "dom (rpc_services ?m) = {}" by (simp add: Messenger_new_def)
  then have h2': "True \<longrightarrow> dom (rpc_services ?m) = {}" by simp
  have three: "replicate (Suc 2) Call_Shutdown = [Call_Shutdown, Call_Shutdown, Call_Shutdown]"
    by (simp add: numeral_2_eq_2)
  have upt: "[0 ..< 2] = [0, Suc 0]" by (simp add: numeral_2_eq_2)
  note t = Shutdown_idempotent [OF h1 h2', of "\<lambda>e. 0" 2, THEN conjunct2, THEN conjunct2,
      THEN conjunct2]
  have "do_calls True (\<lambda>e. 0) ?m [Call_Shutdown, Call_Shutdown, Call_Shutdown] =
       Inr ([Acceptor_Shutdown (Acceptor 0),
             Reactor_Shutdown (Reactor 0), Reactor_Shutdown (Reactor 1),
             Scheduler_Shutdown, IoThreadPool_Shutdown,
             Reactor_Join (Reactor 0), Reactor_Join (Reactor 1),
             IoThreadPool_Join],
            (Messenger_new ''m'' 2 1)\<lparr>closing := True\<rparr>)"
    using t unfolding three by (simp add: Messenger_new_def upt)
  with h1 h2 show ?thesis by blast
qed

subsection \<open>The fast-path flag of the fault injection\<close>

lemma flag_Messenger_new: "flag_matches_set (Messenger_new nm n c)"
  by (simp add: flag_matches_set_def Messenger_new_def)

lemma flag_BreakConnectivityWith:
  "flag_matches_set m \<Longrightarrow> flag_matches_set (snd (BreakConnectivityWith m a l))"
  by (auto simp: flag_matches_set_def BreakConnectivityWith_def Let_def)

lemma flag_RestoreConnectivityWith:
  "flag_matches_set m \<Longrightarrow> flag_matches_set (RestoreConnectivityWith m a)"
  by (auto simp: flag_matches_set_def RestoreConnectivityWith_def Let_def)

lemma do_call_flag:
  assumes "do_call dchecks hv m c = Inr (es, m')" and "flag_matches_set m"
  shows "flag_matches_set m'"
proof (cases c)
  case (Call_BreakConnectivityWith a l)
  with assms flag_BreakConnectivityWith [of m a l] show ?thesis
    by (auto simp: do_call_def)
next
  case (Call_RestoreConnectivityWith a)
  with assms flag_RestoreConnectivityWith [of m a] show ?thesis
    by (auto simp: do_call_def)
qed (use assms in \<open>auto simp: do_call_def Shutdown_def flag_matches_set_def
        RegisterService_def UnregisterAllServices_def UnregisterService_def
        UpdateServicesCache_def InsertIfNotPresent_def RemoveScheduledTask_def
        AbortOnReactor_def ScheduleOnReactor_def Let_def
        split: if_splits option.splits sum.splits prod.splits\<close>)

lemma do_calls_flag:
  "do_calls dchecks hv m cs = Inr (es, m') \<Longrightarrow> flag_matches_set m \<Longrightarrow> flag_matches_set m'"
proof (induction cs arbitrary: m es)
  case Nil
  then show ?case by simp
next
  case (Cons c cs)
  then show ?case
    by (auto split: sum.splits prod.splits dest: do_call_flag)
qed

lemma IsArtificiallyDisconnectedFrom_iff:
  "flag_matches_set m \<Longrightarrow> IsArtificiallyDisconnectedFrom m rem \<longleftrightarrow> rem \<in> broken_connectivity m"
  by (auto simp: flag_matches_set_def IsArtificiallyDisconnectedFrom_def)

text \<open>
  C10. In every state a built Messenger reaches through the member functions above,
  \<^verbatim>\<open>has_broken_connectivity_\<close> is true exactly when \<^verbatim>\<open>broken_connectivity_\<close> is not empty.
  \<^verbatim>\<open>BreakConnectivityWith\<close> adds the address and leaves the flag true,
  \<^verbatim>\<open>RestoreConnectivityWith\<close> removes the address and leaves the flag true exactly when
  an address remains; and \<^verbatim>\<open>IsArtificiallyDisconnectedFrom\<close> answers membership in the
  set.
\<close>

theorem has_broken_connectivity_iff:
  assumes "do_calls dchecks hv (Messenger_new nm n c) cs = Inr (es, m)"
  shows "(has_broken_connectivity m \<longleftrightarrow> broken_connectivity m \<noteq> {})
       \<and> has_broken_connectivity (snd (BreakConnectivityWith m a l))
       \<and> broken_connectivity (snd (BreakConnectivityWith m a l)) = insert a (broken_connectivity m)
       \<and> broken_connectivity (RestoreConnectivityWith m a) = broken_connectivity m - {a}
       \<and> (has_broken_connectivity (RestoreConnectivityWith m a)
            \<longleftrightarrow> broken_connectivity m - {a} \<noteq> {})
       \<and> (IsArtificiallyDisconnectedFrom m rem \<longleftrightarrow> rem \<in> broken_connectivity m)"
proof -
  have inv: "flag_matches_set m"
    using do_calls_flag [OF assms flag_Messenger_new] .
  have 1: "has_broken_connectivity m \<longleftrightarrow> broken_connectivity m \<noteq> {}"
    using inv by (simp add: flag_matches_set_def)
  have 2: "has_broken_connectivity (snd (BreakConnectivityWith m a l))"
    using 1 by (auto simp: BreakConnectivityWith_def Let_def)
  have 3: "broken_connectivity (snd (BreakConnectivityWith m a l)) = insert a (broken_connectivity m)"
    by (auto simp: BreakConnectivityWith_def Let_def)
  have 4: "broken_connectivity (RestoreConnectivityWith m a) = broken_connectivity m - {a}"
    by (auto simp: RestoreConnectivityWith_def Let_def)
  have 5: "has_broken_connectivity (RestoreConnectivityWith m a)
            \<longleftrightarrow> broken_connectivity m - {a} \<noteq> {}"
    using 1 by (auto simp: RestoreConnectivityWith_def Let_def)
  have 6: "IsArtificiallyDisconnectedFrom m rem \<longleftrightarrow> rem \<in> broken_connectivity m"
    using inv by (rule IsArtificiallyDisconnectedFrom_iff)
  from 1 2 3 4 5 6 show ?thesis by blast
qed

theorem has_broken_connectivity_iff_witness:
  "do_calls False (\<lambda>e. 0) (Messenger_new ''m'' 4 1)
       [Call_BreakConnectivityWith (V4 1) 0, Call_BreakConnectivityWith (V4 2) 1,
        Call_RestoreConnectivityWith (V4 1)]
     = Inr (fst (BreakConnectivityWith (Messenger_new ''m'' 4 1) (V4 1) 0)
            @ fst (BreakConnectivityWith
                     (snd (BreakConnectivityWith (Messenger_new ''m'' 4 1) (V4 1) 0)) (V4 2) 1),
            RestoreConnectivityWith
              (snd (BreakConnectivityWith
                      (snd (BreakConnectivityWith (Messenger_new ''m'' 4 1) (V4 1) 0)) (V4 2) 1))
              (V4 1))
   \<and> has_broken_connectivity
        (RestoreConnectivityWith
              (snd (BreakConnectivityWith
                      (snd (BreakConnectivityWith (Messenger_new ''m'' 4 1) (V4 1) 0)) (V4 2) 1))
              (V4 1))
   \<and> broken_connectivity
        (RestoreConnectivityWith
              (snd (BreakConnectivityWith
                      (snd (BreakConnectivityWith (Messenger_new ''m'' 4 1) (V4 1) 0)) (V4 2) 1))
              (V4 1)) = {V4 2}
   \<and> IsArtificiallyDisconnectedFrom
        (RestoreConnectivityWith
              (snd (BreakConnectivityWith
                      (snd (BreakConnectivityWith (Messenger_new ''m'' 4 1) (V4 1) 0)) (V4 2) 1))
              (V4 1)) (V4 2)
   \<and> \<not> IsArtificiallyDisconnectedFrom
        (RestoreConnectivityWith
              (snd (BreakConnectivityWith
                      (snd (BreakConnectivityWith (Messenger_new ''m'' 4 1) (V4 1) 0)) (V4 2) 1))
              (V4 1)) (V4 1)"
proof -
  let ?m = "RestoreConnectivityWith
              (snd (BreakConnectivityWith
                      (snd (BreakConnectivityWith (Messenger_new ''m'' 4 1) (V4 1) 0)) (V4 2) 1))
              (V4 1)"
  have run: "do_calls False (\<lambda>e. 0) (Messenger_new ''m'' 4 1)
       [Call_BreakConnectivityWith (V4 1) 0, Call_BreakConnectivityWith (V4 2) 1,
        Call_RestoreConnectivityWith (V4 1)]
     = Inr (fst (BreakConnectivityWith (Messenger_new ''m'' 4 1) (V4 1) 0)
            @ fst (BreakConnectivityWith
                     (snd (BreakConnectivityWith (Messenger_new ''m'' 4 1) (V4 1) 0)) (V4 2) 1),
            ?m)"
    by (simp add: do_call_def split: prod.splits)
  have set: "broken_connectivity ?m = {V4 2}"
    by (auto simp: RestoreConnectivityWith_def BreakConnectivityWith_def Messenger_new_def Let_def)
  note t = has_broken_connectivity_iff [OF run]
  have a: "has_broken_connectivity ?m"
    using t set by simp
  have b: "IsArtificiallyDisconnectedFrom ?m (V4 2)"
    using t [of _ _ "V4 2"] set by simp
  have c: "\<not> IsArtificiallyDisconnectedFrom ?m (V4 1)"
    using t [of _ _ "V4 1"] set by simp
  from run a set b c show ?thesis by blast
qed

subsection \<open>Outbound calls\<close>

text \<open>
  C3, as stated, fails: for an address marked unreachable the call is not failed by
  the calling thread. \<^verbatim>\<open>QueueOutboundCall\<close> queues a task on the reactor that
  \<^verbatim>\<open>RemoteToReactor\<close> selects, and \<^verbatim>\<open>Transferred\<close> is called when that reactor runs the
  task. Here the address \<open>V4 9\<close> has been marked, and the one call the function makes
  is on reactor 1; it is not a call of \<^verbatim>\<open>Transferred\<close>.
\<close>

theorem QueueOutboundCall_counterexample:
  "V4 9 \<in> broken_connectivity (snd (BreakConnectivityWith (Messenger_new ''m'' 4 1) (V4 9) 0))
   \<and> QueueOutboundCall (\<lambda>e. 7)
        (snd (BreakConnectivityWith (Messenger_new ''m'' 4 1) (V4 9) 0))
        \<lparr>call_id = 1, conn = \<lparr>remote = \<lparr>address = V4 9, port = 7100\<rparr>, idx = 2\<rparr>\<rparr>
      = Inr [Reactor_ScheduleReactorTask (Reactor 1)
               (TransferredTask
                  \<lparr>call_id = 1, conn = \<lparr>remote = \<lparr>address = V4 9, port = 7100\<rparr>, idx = 2\<rparr>\<rparr>
                  (NetworkError ''TEST: Connectivity is broken''))]
   \<and> QueueOutboundCall (\<lambda>e. 7)
        (snd (BreakConnectivityWith (Messenger_new ''m'' 4 1) (V4 9) 0))
        \<lparr>call_id = 1, conn = \<lparr>remote = \<lparr>address = V4 9, port = 7100\<rparr>, idx = 2\<rparr>\<rparr>
      \<noteq> Inr [Call_Transferred
               \<lparr>call_id = 1, conn = \<lparr>remote = \<lparr>address = V4 9, port = 7100\<rparr>, idx = 2\<rparr>\<rparr>
               (NetworkError ''TEST: Connectivity is broken'')]"
proof -
  let ?m = "snd (BreakConnectivityWith (Messenger_new ''m'' 4 1) (V4 9) 0)"
  have rs: "reactors ?m = map Reactor [0 ..< nat 4]"
    by (simp add: BreakConnectivityWith_def Messenger_new_def Let_def)
  have marked: "V4 9 \<in> broken_connectivity ?m"
    by (simp add: BreakConnectivityWith_def Messenger_new_def Let_def)
  have flag: "has_broken_connectivity ?m"
    by (simp add: BreakConnectivityWith_def Messenger_new_def Let_def)
  have sel: "RemoteToReactor (\<lambda>e. 7) ?m \<lparr>address = V4 9, port = 7100\<rparr> 2 = Inr (Reactor 1)"
    using RemoteToReactor_built [of 4 ?m "\<lambda>e. 7" "\<lparr>address = V4 9, port = 7100\<rparr>" 2] rs
    by simp
  have q: "QueueOutboundCall (\<lambda>e. 7) ?m
        \<lparr>call_id = 1, conn = \<lparr>remote = \<lparr>address = V4 9, port = 7100\<rparr>, idx = 2\<rparr>\<rparr>
      = Inr [Reactor_ScheduleReactorTask (Reactor 1)
               (TransferredTask
                  \<lparr>call_id = 1, conn = \<lparr>remote = \<lparr>address = V4 9, port = 7100\<rparr>, idx = 2\<rparr>\<rparr>
                  (NetworkError ''TEST: Connectivity is broken''))]"
    by (simp add: QueueOutboundCall_def Let_def sel IsArtificiallyDisconnectedFrom_def flag marked)
  from marked q show ?thesis by simp
qed

text \<open>
  C3, amended. In every state a Messenger built with \<open>n \<ge> 1\<close> reactors reaches,
  \<^verbatim>\<open>QueueOutboundCall\<close> makes exactly one call, on the reactor that \<^verbatim>\<open>RemoteToReactor\<close>
  selects for the call's remote and index: if the remote's address is in
  \<^verbatim>\<open>broken_connectivity_\<close> it queues on that reactor the task that calls
  \<^verbatim>\<open>Transferred\<close> with the network error, and \<^verbatim>\<open>Reactor::QueueOutboundCall\<close> is not
  called; otherwise it hands the call to \<^verbatim>\<open>Reactor::QueueOutboundCall\<close> of that reactor.
\<close>

theorem QueueOutboundCall_spec:
  assumes "1 \<le> n"
    and "do_calls dchecks hv (Messenger_new nm n c) cs = Inr (es, m)"
  shows "RemoteToReactor hv m (remote (conn oc)) (idx (conn oc))
           = Inr (Reactor (unat ((ucast (hv (remote (conn oc))) :: 32 word) + idx (conn oc))
                           mod nat n))
       \<and> QueueOutboundCall hv m oc =
           Inr [if address (remote (conn oc)) \<in> broken_connectivity m
                then Reactor_ScheduleReactorTask
                       (Reactor (unat ((ucast (hv (remote (conn oc))) :: 32 word) + idx (conn oc))
                                 mod nat n))
                       (TransferredTask oc (NetworkError ''TEST: Connectivity is broken''))
                else Reactor_QueueOutboundCall
                       (Reactor (unat ((ucast (hv (remote (conn oc))) :: 32 word) + idx (conn oc))
                                 mod nat n))
                       oc]"
proof -
  have rs: "reactors m = map Reactor [0 ..< nat n]"
    using do_calls_reactors [OF assms(2)] by (simp add: reactors_Messenger_new)
  have sel: "RemoteToReactor hv m (remote (conn oc)) (idx (conn oc))
           = Inr (Reactor (unat ((ucast (hv (remote (conn oc))) :: 32 word) + idx (conn oc))
                           mod nat n))"
    using assms(1) rs by (rule RemoteToReactor_built)
  have "flag_matches_set m"
    using do_calls_flag [OF assms(2) flag_Messenger_new] .
  then have mark: "IsArtificiallyDisconnectedFrom m (address (remote (conn oc)))
                   \<longleftrightarrow> address (remote (conn oc)) \<in> broken_connectivity m"
    by (rule IsArtificiallyDisconnectedFrom_iff)
  show ?thesis
    by (simp add: QueueOutboundCall_def Let_def sel mark)
qed

theorem QueueOutboundCall_spec_witness:
  "(1::int) \<le> 4
   \<and> do_calls False (\<lambda>e. 7) (Messenger_new ''m'' 4 1) [Call_RestoreConnectivityWith (V4 1)]
       = Inr ([], RestoreConnectivityWith (Messenger_new ''m'' 4 1) (V4 1))
   \<and> QueueOutboundCall (\<lambda>e. 7) (RestoreConnectivityWith (Messenger_new ''m'' 4 1) (V4 1))
        \<lparr>call_id = 1, conn = \<lparr>remote = \<lparr>address = V4 9, port = 7100\<rparr>, idx = 2\<rparr>\<rparr>
      = Inr [Reactor_QueueOutboundCall (Reactor 1)
               \<lparr>call_id = 1, conn = \<lparr>remote = \<lparr>address = V4 9, port = 7100\<rparr>, idx = 2\<rparr>\<rparr>]"
proof -
  have n: "(1::int) \<le> 4" by simp
  have run: "do_calls False (\<lambda>e. 7) (Messenger_new ''m'' 4 1)
               [Call_RestoreConnectivityWith (V4 1)]
             = Inr ([], RestoreConnectivityWith (Messenger_new ''m'' 4 1) (V4 1))"
    by (simp add: do_call_def)
  have unmarked: "V4 9 \<notin> broken_connectivity
                    (RestoreConnectivityWith (Messenger_new ''m'' 4 1) (V4 1))"
    by (simp add: RestoreConnectivityWith_def Messenger_new_def Let_def)
  note t = QueueOutboundCall_spec [OF n run,
      of "\<lparr>call_id = 1, conn = \<lparr>remote = \<lparr>address = V4 9, port = 7100\<rparr>, idx = 2\<rparr>\<rparr>",
      THEN conjunct2]
  have "QueueOutboundCall (\<lambda>e. 7) (RestoreConnectivityWith (Messenger_new ''m'' 4 1) (V4 1))
        \<lparr>call_id = 1, conn = \<lparr>remote = \<lparr>address = V4 9, port = 7100\<rparr>, idx = 2\<rparr>\<rparr>
      = Inr [Reactor_QueueOutboundCall (Reactor 1)
               \<lparr>call_id = 1, conn = \<lparr>remote = \<lparr>address = V4 9, port = 7100\<rparr>, idx = 2\<rparr>\<rparr>]"
    using t unmarked by simp
  with n run show ?thesis by blast
qed

subsection \<open>The service registry\<close>

lemma do_call_keeps_registered:
  "do_call dchecks hv m c = Inr (es, m') \<Longrightarrow> \<not> removes_services c
     \<Longrightarrow> sn \<in> dom (rpc_services m) \<Longrightarrow> sn \<in> dom (rpc_services m')"
  by (cases c)
     (auto simp: do_call_def BreakConnectivityWith_def RestoreConnectivityWith_def
        RegisterService_def UpdateServicesCache_def InsertIfNotPresent_def
        RemoveScheduledTask_def AbortOnReactor_def ScheduleOnReactor_def Let_def
        split: if_splits option.splits sum.splits prod.splits)

lemma do_calls_keeps_registered:
  "do_calls dchecks hv m cs = Inr (es, m') \<Longrightarrow> \<forall>c \<in> set cs. \<not> removes_services c
     \<Longrightarrow> sn \<in> dom (rpc_services m) \<Longrightarrow> sn \<in> dom (rpc_services m')"
proof (induction cs arbitrary: m es)
  case Nil
  then show ?case by simp
next
  case (Cons c cs)
  from Cons.prems(1) obtain es1 m1 es2 where
    1: "do_call dchecks hv m c = Inr (es1, m1)" and
    2: "do_calls dchecks hv m1 cs = Inr (es2, m')"
    by (auto split: sum.splits prod.splits)
  have "sn \<in> dom (rpc_services m1)"
    using do_call_keeps_registered [OF 1] Cons.prems(2,3) by simp
  with 2 Cons.prems(2) show ?case
    by (intro Cons.IH) simp_all
qed

lemma RegisterService_registered: "sn \<in> dom (rpc_services (snd (RegisterService m sn h)))"
  by (auto simp: RegisterService_def InsertIfNotPresent_def UpdateServicesCache_def
           split: option.splits)

text \<open>
  C4. \<^verbatim>\<open>RegisterService\<close> of a name that is in the registry returns \<^verbatim>\<open>AlreadyPresent\<close>
  and leaves the Messenger, its registry and its snapshot as they are; of a name that
  is not, it adds the pair to the registry, publishes the new registry as the snapshot
  and returns \<^verbatim>\<open>OK\<close>. A second registration of the same name after a first one
  returns \<^verbatim>\<open>AlreadyPresent\<close>, whatever is called in between, unless it takes entries out
  of the registry (\<^verbatim>\<open>UnregisterService\<close>, \<^verbatim>\<open>UnregisterAllServices\<close>, \<^verbatim>\<open>Shutdown\<close>).
\<close>

theorem RegisterService_spec:
  "(sn \<in> dom (rpc_services m) \<longrightarrow>
      RegisterService m sn h = (AlreadyPresent (''Service '' @ sn @ '' is already present''), m))
   \<and> (sn \<notin> dom (rpc_services m) \<longrightarrow>
      RegisterService m sn h =
        (OK, m\<lparr>rpc_services := (rpc_services m)(sn \<mapsto> h),
               rpc_services_cache := (rpc_services m)(sn \<mapsto> h)\<rparr>))
   \<and> (\<forall>cs es m'.
         do_calls dchecks hv (snd (RegisterService m sn h)) cs = Inr (es, m')
         \<and> (\<forall>c \<in> set cs. \<not> removes_services c)
         \<longrightarrow> fst (RegisterService m' sn h')
               = AlreadyPresent (''Service '' @ sn @ '' is already present''))"
proof -
  have present: "RegisterService m0 sn h0
                   = (AlreadyPresent (''Service '' @ sn @ '' is already present''), m0)"
    if "sn \<in> dom (rpc_services m0)" for m0 h0
    using that by (auto simp: RegisterService_def InsertIfNotPresent_def)
  have absent: "RegisterService m sn h =
        (OK, m\<lparr>rpc_services := (rpc_services m)(sn \<mapsto> h),
               rpc_services_cache := (rpc_services m)(sn \<mapsto> h)\<rparr>)"
    if "sn \<notin> dom (rpc_services m)"
    using that
    by (auto simp: RegisterService_def InsertIfNotPresent_def UpdateServicesCache_def
             split: option.splits)
  have again: "fst (RegisterService m' sn h')
                 = AlreadyPresent (''Service '' @ sn @ '' is already present'')"
    if run: "do_calls dchecks hv (snd (RegisterService m sn h)) cs = Inr (es, m')"
      and keep: "\<forall>c \<in> set cs. \<not> removes_services c"
    for cs es m'
  proof -
    have "sn \<in> dom (rpc_services m')"
      using run keep RegisterService_registered by (rule do_calls_keeps_registered)
    then show ?thesis by (simp add: present)
  qed
  from present [of m h] absent again show ?thesis by blast
qed

theorem RegisterService_spec_witness:
  "''S'' \<notin> dom (rpc_services (Messenger_new ''m'' 4 1))
   \<and> RegisterService (Messenger_new ''m'' 4 1) ''S'' (RpcService 0)
       = (OK, (Messenger_new ''m'' 4 1)
                \<lparr>rpc_services := [''S'' \<mapsto> RpcService 0],
                 rpc_services_cache := [''S'' \<mapsto> RpcService 0]\<rparr>)
   \<and> ''S'' \<in> dom (rpc_services
                    ((Messenger_new ''m'' 4 1)
                       \<lparr>rpc_services := [''S'' \<mapsto> RpcService 0],
                        rpc_services_cache := [''S'' \<mapsto> RpcService 0]\<rparr>))
   \<and> RegisterService
        ((Messenger_new ''m'' 4 1)
           \<lparr>rpc_services := [''S'' \<mapsto> RpcService 0],
            rpc_services_cache := [''S'' \<mapsto> RpcService 0]\<rparr>)
        ''S'' (RpcService 1)
       = (AlreadyPresent ''Service S is already present'',
          (Messenger_new ''m'' 4 1)
            \<lparr>rpc_services := [''S'' \<mapsto> RpcService 0],
             rpc_services_cache := [''S'' \<mapsto> RpcService 0]\<rparr>)
   \<and> do_calls False (\<lambda>e. 0)
        (snd (RegisterService (Messenger_new ''m'' 4 1) ''S'' (RpcService 0)))
        [Call_RestoreConnectivityWith (V4 1)]
       = Inr ([], RestoreConnectivityWith
                    (snd (RegisterService (Messenger_new ''m'' 4 1) ''S'' (RpcService 0)))
                    (V4 1))
   \<and> fst (RegisterService
             (RestoreConnectivityWith
                (snd (RegisterService (Messenger_new ''m'' 4 1) ''S'' (RpcService 0))) (V4 1))
             ''S'' (RpcService 1))
       = AlreadyPresent ''Service S is already present''"
proof -
  let ?m0 = "Messenger_new ''m'' 4 1"
  let ?m1 = "?m0\<lparr>rpc_services := [''S'' \<mapsto> RpcService 0],
                  rpc_services_cache := [''S'' \<mapsto> RpcService 0]\<rparr>"
  let ?m2 = "RestoreConnectivityWith (snd (RegisterService ?m0 ''S'' (RpcService 0))) (V4 1)"
  have run: "do_calls False (\<lambda>e. 0) (snd (RegisterService ?m0 ''S'' (RpcService 0)))
               [Call_RestoreConnectivityWith (V4 1)] = Inr ([], ?m2)"
    by (simp add: do_call_def)
  have keep: "\<forall>c \<in> set [Call_RestoreConnectivityWith (V4 1)]. \<not> removes_services c"
    by simp
  have third: "fst (RegisterService ?m2 ''S'' (RpcService 1))
                 = AlreadyPresent ''Service S is already present''"
    using RegisterService_spec [where sn = "''S''" and m = ?m0 and h = "RpcService 0"
        and dchecks = False and hv = "\<lambda>e. 0" and h' = "RpcService 1",
        THEN conjunct2, THEN conjunct2, rule_format,
        of "[Call_RestoreConnectivityWith (V4 1)]" "[]" ?m2] run keep
    by simp
  have absent: "''S'' \<notin> dom (rpc_services ?m0)"
    by (simp add: Messenger_new_def)
  have e: "rpc_services ?m0 = Map.empty"
    by (simp add: Messenger_new_def)
  have first: "RegisterService ?m0 ''S'' (RpcService 0) = (OK, ?m1)"
    using RegisterService_spec [where sn = "''S''" and m = ?m0 and h = "RpcService 0",
        THEN conjunct2, THEN conjunct1]
      absent e by simp
  have present: "''S'' \<in> dom (rpc_services ?m1)"
    by simp
  have second: "RegisterService ?m1 ''S'' (RpcService 1)
                  = (AlreadyPresent ''Service S is already present'', ?m1)"
    using RegisterService_spec [where sn = "''S''" and m = ?m1 and h = "RpcService 1",
        THEN conjunct1] present
    by simp
  from absent first present second run third show ?thesis by blast
qed

text \<open>
  C5. \<^verbatim>\<open>UnregisterService\<close> of a name that is not in the registry returns
  \<^verbatim>\<open>ServiceUnavailable\<close> and leaves the Messenger, its registry and its snapshot as they
  are; of a name that is, it removes the entry, publishes the new registry as the
  snapshot and returns \<^verbatim>\<open>OK\<close>. \<^verbatim>\<open>UnregisterAllServices\<close> empties the registry, publishes
  the empty registry as the snapshot and returns \<^verbatim>\<open>OK\<close>.
\<close>

theorem UnregisterService_spec:
  "(sn \<notin> dom (rpc_services m) \<longrightarrow>
      UnregisterService m sn =
        (ServiceUnavailable (''service '' @ sn @ '' not registered on '' @ name m), m))
   \<and> (sn \<in> dom (rpc_services m) \<longrightarrow>
      UnregisterService m sn =
        (OK, m\<lparr>rpc_services := (rpc_services m)(sn := None),
               rpc_services_cache := (rpc_services m)(sn := None)\<rparr>))
   \<and> UnregisterAllServices m =
        (OK, m\<lparr>rpc_services := Map.empty, rpc_services_cache := Map.empty\<rparr>)"
proof -
  have absent: "UnregisterService m sn =
        (ServiceUnavailable (''service '' @ sn @ '' not registered on '' @ name m), m)"
    if "sn \<notin> dom (rpc_services m)"
  proof -
    from that have "(rpc_services m)(sn := None) = rpc_services m"
      by (simp add: fun_upd_idem_iff domIff)
    with that show ?thesis
      by (simp add: UnregisterService_def Let_def)
  qed
  have present: "UnregisterService m sn =
        (OK, m\<lparr>rpc_services := (rpc_services m)(sn := None),
               rpc_services_cache := (rpc_services m)(sn := None)\<rparr>)"
    if "sn \<in> dom (rpc_services m)"
    using that by (simp add: UnregisterService_def UpdateServicesCache_def Let_def)
  have every: "UnregisterAllServices m =
        (OK, m\<lparr>rpc_services := Map.empty, rpc_services_cache := Map.empty\<rparr>)"
    by (simp add: UnregisterAllServices_def UpdateServicesCache_def)
  from absent present every show ?thesis by blast
qed

theorem UnregisterService_spec_witness:
  "''S'' \<in> dom (rpc_services
                  ((Messenger_new ''m'' 4 1)
                     \<lparr>rpc_services := [''S'' \<mapsto> RpcService 0],
                      rpc_services_cache := [''S'' \<mapsto> RpcService 0]\<rparr>))
   \<and> fst (UnregisterService
            ((Messenger_new ''m'' 4 1)
               \<lparr>rpc_services := [''S'' \<mapsto> RpcService 0],
                rpc_services_cache := [''S'' \<mapsto> RpcService 0]\<rparr>) ''S'') = OK
   \<and> rpc_services_cache
        (snd (UnregisterService
               ((Messenger_new ''m'' 4 1)
                  \<lparr>rpc_services := [''S'' \<mapsto> RpcService 0],
                   rpc_services_cache := [''S'' \<mapsto> RpcService 0]\<rparr>) ''S'')) ''S'' = None
   \<and> ''S'' \<notin> dom (rpc_services (Messenger_new ''m'' 4 1))
   \<and> UnregisterService (Messenger_new ''m'' 4 1) ''S''
       = (ServiceUnavailable ''service S not registered on m'', Messenger_new ''m'' 4 1)"
proof -
  let ?m0 = "Messenger_new ''m'' 4 1"
  let ?m1 = "?m0\<lparr>rpc_services := [''S'' \<mapsto> RpcService 0],
                  rpc_services_cache := [''S'' \<mapsto> RpcService 0]\<rparr>"
  have present: "''S'' \<in> dom (rpc_services ?m1)"
    by simp
  have absent: "''S'' \<notin> dom (rpc_services ?m0)"
    by (simp add: Messenger_new_def)
  have nm: "name ?m0 = ''m''"
    by (simp add: Messenger_new_def)
  note t1 = UnregisterService_spec [of "''S''" ?m1, THEN conjunct2, THEN conjunct1]
  note t0 = UnregisterService_spec [of "''S''" ?m0, THEN conjunct1]
  have a: "fst (UnregisterService ?m1 ''S'') = OK"
    using t1 present by simp
  have b: "rpc_services_cache (snd (UnregisterService ?m1 ''S'')) ''S'' = None"
    using t1 present by simp
  have c: "UnregisterService ?m0 ''S''
             = (ServiceUnavailable ''service S not registered on m'', ?m0)"
    using t0 absent nm by simp
  from present a b absent c show ?thesis by blast
qed

subsection \<open>Inbound calls\<close>

lemma do_call_cache:
  "do_call dchecks hv m c = Inr (es, m') \<Longrightarrow> c \<noteq> Call_Shutdown
     \<Longrightarrow> rpc_services_cache m = rpc_services m
     \<Longrightarrow> rpc_services_cache m' = rpc_services m'"
  by (cases c)
     (auto simp: do_call_def BreakConnectivityWith_def RestoreConnectivityWith_def
        RegisterService_def UnregisterAllServices_def UnregisterService_def
        UpdateServicesCache_def InsertIfNotPresent_def RemoveScheduledTask_def
        AbortOnReactor_def ScheduleOnReactor_def Let_def
        split: if_splits option.splits sum.splits prod.splits)

lemma do_calls_cache:
  "do_calls dchecks hv m cs = Inr (es, m') \<Longrightarrow> Call_Shutdown \<notin> set cs
     \<Longrightarrow> rpc_services_cache m = rpc_services m
     \<Longrightarrow> rpc_services_cache m' = rpc_services m'"
proof (induction cs arbitrary: m es)
  case Nil
  then show ?case by simp
next
  case (Cons c cs)
  from Cons.prems(1) obtain es1 m1 es2 where
    1: "do_call dchecks hv m c = Inr (es1, m1)" and
    2: "do_calls dchecks hv m1 cs = Inr (es2, m')"
    by (auto split: sum.splits prod.splits)
  have "rpc_services_cache m1 = rpc_services m1"
    using do_call_cache [OF 1] Cons.prems(2,3) by auto
  with 2 Cons.prems(2) show ?case
    by (intro Cons.IH) simp_all
qed

text \<open>
  C6. \<^verbatim>\<open>QueueInboundCall\<close> and \<^verbatim>\<open>Handle\<close> look the call's service name up in the
  published snapshot. With no entry for the name, the one call each makes is
  \<^verbatim>\<open>RespondFailure\<close> on the inbound call, with \<^verbatim>\<open>ERROR_NO_SUCH_SERVICE\<close> and a
  \<^verbatim>\<open>ServiceUnavailable\<close> status whose message names the service; no service is called.
  With an entry, the one call is \<^verbatim>\<open>QueueInboundCall\<close>, respectively \<^verbatim>\<open>Handle\<close>, of the
  service found. In every state a built Messenger reaches through the member functions
  above other than \<^verbatim>\<open>Shutdown\<close>, the snapshot is the registry, so the service found is
  the service registered under the name.
\<close>

theorem inbound_call_dispatch:
  "(rpc_services_cache m (service_name ic) = None \<longrightarrow>
      QueueInboundCall m ic =
        [Call_RespondFailure ic ERROR_NO_SUCH_SERVICE
           (ServiceUnavailable
              (''Service '' @ service_name ic @ '' not registered on '' @ name m))]
      \<and> Handle m ic =
        [Call_RespondFailure ic ERROR_NO_SUCH_SERVICE
           (ServiceUnavailable
              (''Service '' @ service_name ic @ '' not registered on '' @ name m))])
   \<and> (\<forall>s. rpc_services_cache m (service_name ic) = Some s \<longrightarrow>
      QueueInboundCall m ic = [Service_QueueInboundCall s ic]
      \<and> Handle m ic = [Service_Handle s ic])
   \<and> (\<forall>dchecks hv nm n c cs es.
         do_calls dchecks hv (Messenger_new nm n c) cs = Inr (es, m) \<and> Call_Shutdown \<notin> set cs
         \<longrightarrow> rpc_services_cache m = rpc_services m)"
proof -
  have missing: "QueueInboundCall m ic =
        [Call_RespondFailure ic ERROR_NO_SUCH_SERVICE
           (ServiceUnavailable
              (''Service '' @ service_name ic @ '' not registered on '' @ name m))]
      \<and> Handle m ic =
        [Call_RespondFailure ic ERROR_NO_SUCH_SERVICE
           (ServiceUnavailable
              (''Service '' @ service_name ic @ '' not registered on '' @ name m))]"
    if "rpc_services_cache m (service_name ic) = None"
    using that by (simp add: QueueInboundCall_def Handle_def rpc_service_def)
  have found: "QueueInboundCall m ic = [Service_QueueInboundCall s ic]
      \<and> Handle m ic = [Service_Handle s ic]"
    if "rpc_services_cache m (service_name ic) = Some s" for s
    using that by (simp add: QueueInboundCall_def Handle_def rpc_service_def)
  have mirror: "rpc_services_cache m = rpc_services m"
    if "do_calls dchecks hv (Messenger_new nm n c) cs = Inr (es, m)"
      and "Call_Shutdown \<notin> set cs"
    for dchecks hv nm n c cs es
    using that by (rule do_calls_cache) (simp add: Messenger_new_def)
  from missing found mirror show ?thesis by blast
qed

theorem inbound_call_dispatch_witness:
  "rpc_services_cache (snd (RegisterService (Messenger_new ''m'' 4 1) ''S'' (RpcService 0)))
      (service_name \<lparr>in_call_id = 1, service_name = ''S''\<rparr>) = Some (RpcService 0)
   \<and> QueueInboundCall (snd (RegisterService (Messenger_new ''m'' 4 1) ''S'' (RpcService 0)))
        \<lparr>in_call_id = 1, service_name = ''S''\<rparr>
      = [Service_QueueInboundCall (RpcService 0) \<lparr>in_call_id = 1, service_name = ''S''\<rparr>]
   \<and> Handle (snd (RegisterService (Messenger_new ''m'' 4 1) ''S'' (RpcService 0)))
        \<lparr>in_call_id = 1, service_name = ''S''\<rparr>
      = [Service_Handle (RpcService 0) \<lparr>in_call_id = 1, service_name = ''S''\<rparr>]
   \<and> rpc_services_cache (snd (RegisterService (Messenger_new ''m'' 4 1) ''S'' (RpcService 0)))
      (service_name \<lparr>in_call_id = 2, service_name = ''T''\<rparr>) = None
   \<and> QueueInboundCall (snd (RegisterService (Messenger_new ''m'' 4 1) ''S'' (RpcService 0)))
        \<lparr>in_call_id = 2, service_name = ''T''\<rparr>
      = [Call_RespondFailure \<lparr>in_call_id = 2, service_name = ''T''\<rparr> ERROR_NO_SUCH_SERVICE
           (ServiceUnavailable ''Service T not registered on m'')]
   \<and> do_calls False (\<lambda>e. 0) (Messenger_new ''m'' 4 1)
        [Call_RegisterService ''S'' (RpcService 0)]
      = Inr ([], snd (RegisterService (Messenger_new ''m'' 4 1) ''S'' (RpcService 0)))
   \<and> Call_Shutdown \<notin> set [Call_RegisterService ''S'' (RpcService 0)]
   \<and> rpc_services_cache (snd (RegisterService (Messenger_new ''m'' 4 1) ''S'' (RpcService 0)))
      = rpc_services (snd (RegisterService (Messenger_new ''m'' 4 1) ''S'' (RpcService 0)))"
proof -
  let ?m = "snd (RegisterService (Messenger_new ''m'' 4 1) ''S'' (RpcService 0))"
  have run: "do_calls False (\<lambda>e. 0) (Messenger_new ''m'' 4 1)
               [Call_RegisterService ''S'' (RpcService 0)] = Inr ([], ?m)"
    by (simp add: do_call_def)
  have ns: "Call_Shutdown \<notin> set [Call_RegisterService ''S'' (RpcService 0)]"
    by simp
  have mirror: "rpc_services_cache ?m = rpc_services ?m"
    using inbound_call_dispatch [of ?m "\<lparr>in_call_id = 1, service_name = ''S''\<rparr>",
        THEN conjunct2, THEN conjunct2, rule_format,
        of False "\<lambda>e. 0" "''m''" 4 1 "[Call_RegisterService ''S'' (RpcService 0)]" "[]"]
      run ns
    by blast
  have cache: "rpc_services_cache ?m = [''S'' \<mapsto> RpcService 0]"
    by (simp add: RegisterService_def InsertIfNotPresent_def UpdateServicesCache_def
          Messenger_new_def)
  have nm: "name ?m = ''m''"
    by (simp add: RegisterService_def InsertIfNotPresent_def UpdateServicesCache_def
          Messenger_new_def)
  have s: "rpc_services_cache ?m (service_name \<lparr>in_call_id = 1, service_name = ''S''\<rparr>)
             = Some (RpcService 0)"
    by (simp add: cache)
  have t: "rpc_services_cache ?m (service_name \<lparr>in_call_id = 2, service_name = ''T''\<rparr>) = None"
    by (simp add: cache)
  note found = inbound_call_dispatch [of ?m "\<lparr>in_call_id = 1, service_name = ''S''\<rparr>",
      THEN conjunct2, THEN conjunct1, rule_format, OF s]
  note missing = inbound_call_dispatch [of ?m "\<lparr>in_call_id = 2, service_name = ''T''\<rparr>",
      THEN conjunct1, rule_format, OF t, THEN conjunct1]
  have m: "QueueInboundCall ?m \<lparr>in_call_id = 2, service_name = ''T''\<rparr>
      = [Call_RespondFailure \<lparr>in_call_id = 2, service_name = ''T''\<rparr> ERROR_NO_SUCH_SERVICE
           (ServiceUnavailable ''Service T not registered on m'')]"
    using missing nm by simp
  from s found t m run ns mirror show ?thesis by blast
qed

subsection \<open>Scheduled tasks\<close>

text \<open>
  C7, as stated, fails for the task id \<open>-1\<close>: it is in no task map of a Messenger that was
  just built, and \<^verbatim>\<open>AbortOnReactor(-1)\<close> does not return; \<^verbatim>\<open>CHECK_NE(task_id, -1)\<close> stops
  the process.
\<close>

theorem AbortOnReactor_counterexample:
  "scheduled_tasks (Messenger_new ''m'' 4 1) (- 1) = None
   \<and> AbortOnReactor False (Messenger_new ''m'' 4 1) (- 1) = Inl CheckFailed"
  by (simp add: AbortOnReactor_def Messenger_new_def)

text \<open>
  C7, amended. For every task id other than \<open>-1\<close>, on a Messenger with at least one
  reactor (or in a build without \<^verbatim>\<open>DCHECK\<close>s): when the id is in the scheduled-task
  map, \<^verbatim>\<open>AbortOnReactor\<close> calls \<^verbatim>\<open>AbortTask\<close> of the task with an \<^verbatim>\<open>Aborted\<close> status and
  removes the id from the map; when it is not, \<^verbatim>\<open>AbortOnReactor\<close> makes no call,
  leaves the Messenger as it is and returns. The id is not in the map, in particular,
  once \<^verbatim>\<open>RemoveScheduledTask\<close> has taken it out (which a task does when it has fired).
\<close>

theorem AbortOnReactor_spec:
  assumes "tid \<noteq> - 1" and "dchecks \<longrightarrow> reactors m \<noteq> []"
  shows "(\<forall>t. scheduled_tasks m tid = Some t \<longrightarrow>
            AbortOnReactor dchecks m tid =
              Inr ([Task_AbortTask t (Aborted ''Task aborted by messenger'')],
                   m\<lparr>scheduled_tasks := (scheduled_tasks m)(tid := None)\<rparr>))
       \<and> (scheduled_tasks m tid = None \<longrightarrow> AbortOnReactor dchecks m tid = Inr ([], m))
       \<and> (\<forall>m'. RemoveScheduledTask m tid = Inr m' \<longrightarrow>
             AbortOnReactor dchecks m' tid = Inr ([], m'))"
proof -
  have known: "AbortOnReactor dchecks m tid =
              Inr ([Task_AbortTask t (Aborted ''Task aborted by messenger'')],
                   m\<lparr>scheduled_tasks := (scheduled_tasks m)(tid := None)\<rparr>)"
    if "scheduled_tasks m tid = Some t" for t
    using that assms by (simp add: AbortOnReactor_def)
  have unknown: "AbortOnReactor dchecks m0 tid = Inr ([], m0)"
    if "scheduled_tasks m0 tid = None" and "reactors m0 = reactors m" for m0
    using that assms by (simp add: AbortOnReactor_def)
  have fired: "AbortOnReactor dchecks m' tid = Inr ([], m')"
    if "RemoveScheduledTask m tid = Inr m'" for m'
  proof -
    from that assms(1) have "m' = m\<lparr>scheduled_tasks := (scheduled_tasks m)(tid := None)\<rparr>"
      by (simp add: RemoveScheduledTask_def)
    then have "scheduled_tasks m' tid = None" "reactors m' = reactors m"
      by simp_all
    then show ?thesis by (rule unknown)
  qed
  from known unknown [of m] fired show ?thesis by blast
qed

theorem AbortOnReactor_spec_witness:
  "(5 :: int64) \<noteq> - 1
   \<and> reactors ((Messenger_new ''m'' 4 1)
        \<lparr>scheduled_tasks := [5 \<mapsto> \<lparr>func = 11, delay = 100, task_id = 5, has_messenger = True\<rparr>]\<rparr>)
       \<noteq> []
   \<and> AbortOnReactor True
        ((Messenger_new ''m'' 4 1)
           \<lparr>scheduled_tasks := [5 \<mapsto> \<lparr>func = 11, delay = 100, task_id = 5, has_messenger = True\<rparr>]\<rparr>)
        5
      = Inr ([Task_AbortTask \<lparr>func = 11, delay = 100, task_id = 5, has_messenger = True\<rparr>
                (Aborted ''Task aborted by messenger'')],
             Messenger_new ''m'' 4 1)
   \<and> scheduled_tasks (Messenger_new ''m'' 4 1) 5 = None
   \<and> AbortOnReactor True (Messenger_new ''m'' 4 1) 5 = Inr ([], Messenger_new ''m'' 4 1)"
proof -
  let ?m0 = "Messenger_new ''m'' 4 1"
  let ?t = "\<lparr>func = 11, delay = 100, task_id = 5 :: int64, has_messenger = True\<rparr>"
  let ?m1 = "?m0\<lparr>scheduled_tasks := [5 \<mapsto> ?t]\<rparr>"
  have ne: "(5 :: int64) \<noteq> - 1" by simp
  have r1: "reactors ?m1 \<noteq> []" by (simp add: Messenger_new_def)
  have r0: "reactors ?m0 \<noteq> []" by (simp add: Messenger_new_def)
  have in1: "scheduled_tasks ?m1 5 = Some ?t" by simp
  have in0: "scheduled_tasks ?m0 5 = None" by (simp add: Messenger_new_def)
  have restored: "?m1\<lparr>scheduled_tasks := (scheduled_tasks ?m1)(5 := None)\<rparr> = ?m0"
    by (simp add: Messenger_new_def)
  have a: "AbortOnReactor True ?m1 5
             = Inr ([Task_AbortTask ?t (Aborted ''Task aborted by messenger'')], ?m0)"
    using AbortOnReactor_spec [of 5 True ?m1, THEN conjunct1, rule_format, OF ne _ in1] r1 restored
    by simp
  have b: "AbortOnReactor True ?m0 5 = Inr ([], ?m0)"
    using AbortOnReactor_spec [of 5 True ?m0, THEN conjunct2, THEN conjunct1, rule_format,
        OF ne _ in0] r0
    by simp
  from ne r1 a in0 b show ?thesis by blast
qed

lemma find_current_ReactorThread:
  "find_current (ReactorThread r) rs chosen = (if r \<in> set rs then Some r else chosen)"
  by (induction rs arbitrary: chosen) (auto simp: IsCurrentThread_def)

lemma find_current_OtherThread:
  "find_current (OtherThread k) rs chosen = chosen"
  by (induction rs arbitrary: chosen) (auto simp: IsCurrentThread_def)

lemma do_call_next_task_id:
  "do_call dchecks hv m c = Inr (es, m') \<Longrightarrow>
     next_task_id m' = next_task_id m + of_nat (owner_schedules [c])"
  by (cases c)
     (auto simp: do_call_def Shutdown_def BreakConnectivityWith_def RestoreConnectivityWith_def
        RegisterService_def UnregisterAllServices_def UnregisterService_def
        UpdateServicesCache_def InsertIfNotPresent_def RemoveScheduledTask_def
        AbortOnReactor_def ScheduleOnReactor_def Let_def
        split: if_splits option.splits sum.splits prod.splits)

lemma owner_schedules_Cons:
  "owner_schedules (c # cs) = owner_schedules [c] + owner_schedules cs"
  by (cases c) auto

lemma do_calls_next_task_id:
  "do_calls dchecks hv m cs = Inr (es, m') \<Longrightarrow>
     next_task_id m' = next_task_id m + of_nat (owner_schedules cs)"
proof (induction cs arbitrary: m es)
  case Nil
  then show ?case by simp
next
  case (Cons c cs)
  from Cons.prems obtain es1 m1 es2 where
    1: "do_call dchecks hv m c = Inr (es1, m1)" and
    2: "do_calls dchecks hv m1 cs = Inr (es2, m')"
    by (auto split: sum.splits prod.splits)
  have "next_task_id m' = next_task_id m1 + of_nat (owner_schedules cs)"
    using Cons.IH [OF 2] .
  also have "next_task_id m1 = next_task_id m + of_nat (owner_schedules [c])"
    using do_call_next_task_id [OF 1] .
  finally show ?case
    by (subst owner_schedules_Cons) (simp add: add.assoc)
qed

lemma word64_of_nat_Suc_neq_0:
  assumes "Suc k < 2 ^ 64"
  shows "(of_nat (Suc k) :: 64 word) \<noteq> 0"
proof
  assume "(of_nat (Suc k) :: 64 word) = 0"
  then have "(2::nat) ^ 64 dvd Suc k"
    by (simp only: word_of_nat_eq_0_iff len_bit0 len_num1) simp
  then have "(2::nat) ^ 64 \<le> Suc k"
    by (rule dvd_imp_le) simp
  with assms show False by simp
qed

lemma ScheduleOnReactor_result:
  assumes "reactors m \<noteq> []"
  shows "ScheduleOnReactor dchecks cur rnd m fn when owner =
           Inr (if owner then next_task_id m else 0,
                [Reactor_ScheduleReactorTask
                   (case cur of
                      ReactorThread r \<Rightarrow>
                        if r \<in> set (reactors m) then r
                        else reactors m ! (rnd mod length (reactors m))
                    | OtherThread k \<Rightarrow> reactors m ! (rnd mod length (reactors m)))
                   (Delayed \<lparr>func = fn, delay = when,
                              task_id = (if owner then next_task_id m else 0),
                              has_messenger = owner\<rparr>)],
                if owner
                then m\<lparr>next_task_id := next_task_id m + 1,
                       scheduled_tasks := (scheduled_tasks m)
                         (next_task_id m \<mapsto>
                            \<lparr>func = fn, delay = when, task_id = next_task_id m,
                             has_messenger = True\<rparr>)\<rparr>
                else m)"
  using assms
  by (cases cur)
     (auto simp: ScheduleOnReactor_def find_current_ReactorThread find_current_OtherThread
        Let_def)

text \<open>
  C8. On a Messenger with at least one reactor, \<^verbatim>\<open>ScheduleOnReactor\<close> called on the
  thread of one of the Messenger's reactors queues the task on that reactor, and
  called on any other thread queues it on the reactor at position \<^verbatim>\<open>rand()\<close> modulo the
  number of reactors, one of the Messenger's reactors. With an owner the task gets the
  value of the task-id counter as its id, the counter goes up by one and the task is
  entered in the scheduled-task map under its id; this id differs from the id of every
  later call with an owner, as long as fewer than \<open>2^64\<close> ids are drawn in between.
  With no owner the id is 0, and the counter and the map stay as they are.
\<close>

theorem ScheduleOnReactor_spec:
  assumes "reactors m \<noteq> []"
  shows "ScheduleOnReactor dchecks cur rnd m fn when owner =
           Inr (if owner then next_task_id m else 0,
                [Reactor_ScheduleReactorTask
                   (case cur of
                      ReactorThread r \<Rightarrow>
                        if r \<in> set (reactors m) then r
                        else reactors m ! (rnd mod length (reactors m))
                    | OtherThread k \<Rightarrow> reactors m ! (rnd mod length (reactors m)))
                   (Delayed \<lparr>func = fn, delay = when,
                              task_id = (if owner then next_task_id m else 0),
                              has_messenger = owner\<rparr>)],
                if owner
                then m\<lparr>next_task_id := next_task_id m + 1,
                       scheduled_tasks := (scheduled_tasks m)
                         (next_task_id m \<mapsto>
                            \<lparr>func = fn, delay = when, task_id = next_task_id m,
                             has_messenger = True\<rparr>)\<rparr>
                else m)
       \<and> reactors m ! (rnd mod length (reactors m)) \<in> set (reactors m)
       \<and> (\<forall>es1 m1 cs es2 m2 cur' rnd' fn' when' t' es' m3.
             ScheduleOnReactor dchecks cur rnd m fn when True = Inr (next_task_id m, es1, m1)
             \<and> do_calls dchecks hv m1 cs = Inr (es2, m2)
             \<and> Suc (owner_schedules cs) < 2 ^ 64
             \<and> ScheduleOnReactor dchecks cur' rnd' m2 fn' when' True = Inr (t', es', m3)
             \<longrightarrow> t' \<noteq> next_task_id m)"
proof -
  note res = ScheduleOnReactor_result [OF assms]
  have mem: "reactors m ! (rnd mod length (reactors m)) \<in> set (reactors m)"
    using assms by simp
  have uniq: "t' \<noteq> next_task_id m"
    if 1: "ScheduleOnReactor dchecks cur rnd m fn when True = Inr (next_task_id m, es1, m1)"
      and 2: "do_calls dchecks hv m1 cs = Inr (es2, m2)"
      and 3: "Suc (owner_schedules cs) < 2 ^ 64"
      and 4: "ScheduleOnReactor dchecks cur' rnd' m2 fn' when' True = Inr (t', es', m3)"
    for es1 m1 cs es2 m2 cur' rnd' fn' when' t' es' m3
  proof -
    have n1: "next_task_id m1 = next_task_id m + 1"
      using 1 by (auto simp: ScheduleOnReactor_result [OF assms])
    have n2: "next_task_id m2 = next_task_id m + of_nat (Suc (owner_schedules cs))"
      using do_calls_next_task_id [OF 2] n1 by simp
    have r2: "reactors m2 \<noteq> []"
      using do_calls_reactors [OF 2] 1 assms by (auto simp: ScheduleOnReactor_result [OF assms])
    have "t' = next_task_id m2"
      using 4 by (auto simp: ScheduleOnReactor_result [OF r2])
    then have "t' = next_task_id m + of_nat (Suc (owner_schedules cs))"
      using n2 by simp
    moreover have "(of_nat (Suc (owner_schedules cs)) :: 64 word) \<noteq> 0"
      using word64_of_nat_Suc_neq_0 [OF 3] .
    ultimately show ?thesis by simp
  qed
  from res mem uniq show ?thesis by blast
qed

theorem ScheduleOnReactor_spec_witness:
  "reactors (Messenger_new ''m'' 4 1) \<noteq> []
   \<and> ScheduleOnReactor True (ReactorThread (Reactor 2)) 5 (Messenger_new ''m'' 4 1) 11 100 True
      = Inr (1,
             [Reactor_ScheduleReactorTask (Reactor 2)
                (Delayed \<lparr>func = 11, delay = 100, task_id = 1, has_messenger = True\<rparr>)],
             (Messenger_new ''m'' 4 1)
               \<lparr>next_task_id := 2,
                scheduled_tasks :=
                  [1 \<mapsto> \<lparr>func = 11, delay = 100, task_id = 1, has_messenger = True\<rparr>]\<rparr>)
   \<and> ScheduleOnReactor True (OtherThread 0) 5 (Messenger_new ''m'' 4 1) 11 100 False
      = Inr (0,
             [Reactor_ScheduleReactorTask (Reactor 1)
                (Delayed \<lparr>func = 11, delay = 100, task_id = 0, has_messenger = False\<rparr>)],
             Messenger_new ''m'' 4 1)
   \<and> Suc (owner_schedules [Call_ScheduleOnReactor (OtherThread 0) 6 12 100 True]) < 2 ^ 64
   \<and> fst (projr (ScheduleOnReactor True (OtherThread 0) 7
         (snd (projr (do_calls True (\<lambda>e. 0)
            ((Messenger_new ''m'' 4 1)
               \<lparr>next_task_id := 2,
                scheduled_tasks :=
                  [1 \<mapsto> \<lparr>func = 11, delay = 100, task_id = 1, has_messenger = True\<rparr>]\<rparr>)
            [Call_ScheduleOnReactor (OtherThread 0) 6 12 100 True])))
         13 100 True)) = 3
   \<and> fst (projr (ScheduleOnReactor True (OtherThread 0) 7
         (snd (projr (do_calls True (\<lambda>e. 0)
            ((Messenger_new ''m'' 4 1)
               \<lparr>next_task_id := 2,
                scheduled_tasks :=
                  [1 \<mapsto> \<lparr>func = 11, delay = 100, task_id = 1, has_messenger = True\<rparr>]\<rparr>)
            [Call_ScheduleOnReactor (OtherThread 0) 6 12 100 True])))
         13 100 True)) \<noteq> next_task_id (Messenger_new ''m'' 4 1)"
proof -
  let ?m0 = "Messenger_new ''m'' 4 1"
  have r: "reactors ?m0 \<noteq> []" by (simp add: Messenger_new_def)
  have rs: "reactors ?m0 = [Reactor 0, Reactor 1, Reactor 2, Reactor 3]"
    by (simp add: Messenger_new_def upt_rec)
  have c: "next_task_id ?m0 = 1" "scheduled_tasks ?m0 = Map.empty"
    by (simp_all add: Messenger_new_def)
  have a: "ScheduleOnReactor True (ReactorThread (Reactor 2)) 5 ?m0 11 100 True
      = Inr (1,
             [Reactor_ScheduleReactorTask (Reactor 2)
                (Delayed \<lparr>func = 11, delay = 100, task_id = 1, has_messenger = True\<rparr>)],
             ?m0\<lparr>next_task_id := 2,
                  scheduled_tasks :=
                    [1 \<mapsto> \<lparr>func = 11, delay = 100, task_id = 1, has_messenger = True\<rparr>]\<rparr>)"
    using ScheduleOnReactor_spec [OF r, of True "ReactorThread (Reactor 2)" 5 11 100 True,
        THEN conjunct1]
    by (simp add: rs c)
  have b: "ScheduleOnReactor True (OtherThread 0) 5 ?m0 11 100 False
      = Inr (0,
             [Reactor_ScheduleReactorTask (Reactor 1)
                (Delayed \<lparr>func = 11, delay = 100, task_id = 0, has_messenger = False\<rparr>)],
             ?m0)"
    using ScheduleOnReactor_spec [OF r, of True "OtherThread 0" 5 11 100 False, THEN conjunct1]
    by (simp add: rs)
  let ?m1 = "?m0\<lparr>next_task_id := 2,
                  scheduled_tasks :=
                    [1 \<mapsto> \<lparr>func = 11, delay = 100, task_id = 1, has_messenger = True\<rparr>]\<rparr>"
  let ?cs = "[Call_ScheduleOnReactor (OtherThread 0) 6 12 100 True]"
  let ?m2 = "snd (projr (do_calls True (\<lambda>e. 0) ?m1 ?cs))"
  have r1: "reactors ?m1 \<noteq> []" by (simp add: rs)
  have few: "Suc (owner_schedules ?cs) < 2 ^ 64" by simp
  obtain es2 m2 where run: "do_calls True (\<lambda>e. 0) ?m1 ?cs = Inr (es2, m2)"
    by (simp add: do_call_def ScheduleOnReactor_result [OF r1])
  then have m2: "?m2 = m2" by simp
  have r2: "reactors m2 \<noteq> []"
    using do_calls_reactors [OF run] r1 by simp
  have n2: "next_task_id m2 = 3"
    using do_calls_next_task_id [OF run] by simp
  obtain es3 m3 where third: "ScheduleOnReactor True (OtherThread 0) 7 m2 13 100 True
                                = Inr (3, es3, m3)"
    by (simp add: ScheduleOnReactor_result [OF r2] n2)
  have "(3 :: int64) \<noteq> next_task_id ?m0"
    using ScheduleOnReactor_spec [OF r, of True "ReactorThread (Reactor 2)" 5 11 100 True
        "\<lambda>e. 0", THEN conjunct2, THEN conjunct2, rule_format,
        of _ ?m1 ?cs es2 m2 "OtherThread 0" 7 13 100 3 es3 m3]
      a run few third c
    by simp
  with third m2 have u: "fst (projr (ScheduleOnReactor True (OtherThread 0) 7 ?m2 13 100 True)) = 3"
    "fst (projr (ScheduleOnReactor True (OtherThread 0) 7 ?m2 13 100 True)) \<noteq> next_task_id ?m0"
    by simp_all
  from r a b few u show ?thesis by blast
qed

subsection \<open>The rendezvous of BreakConnectivityWith\<close>

lemma take_first_Some_split:
  "take_first r q = Some (t, q') \<Longrightarrow>
     \<exists>q1 q2. q = q1 @ (r, t) # q2 \<and> q' = q1 @ q2 \<and> r \<notin> fst ` set q1"
proof (induction q arbitrary: q')
  case Nil
  then show ?case by simp
next
  case (Cons x q)
  obtain r' t' where x: "x = (r', t')" by (cases x)
  show ?case
  proof (cases "r' = r")
    case True
    with Cons.prems x have "t = t'" "q' = q" by auto
    with True x have "x # q = [] @ (r, t) # q \<and> q' = [] @ q \<and> r \<notin> fst ` set []"
      by simp
    then show ?thesis by blast
  next
    case False
    with Cons.prems x obtain q'' where
      1: "take_first r q = Some (t, q'')" and 2: "q' = (r', t') # q''"
      by (auto split: option.splits)
    from Cons.IH [OF 1] obtain q1 q2 where
      "q = q1 @ (r, t) # q2" "q'' = q1 @ q2" "r \<notin> fst ` set q1" by blast
    with False x 2 have "x # q = ((r', t') # q1) @ (r, t) # q2 \<and> q' = ((r', t') # q1) @ q2
        \<and> r \<notin> fst ` set ((r', t') # q1)"
      by auto
    then show ?thesis by blast
  qed
qed

lemma on_latch_count_0: "on_latch_count l q = 0 \<longleftrightarrow> (\<forall>(r, t) \<in> set q. \<not> on_latch l t)"
  by (induction q) (auto simp: on_latch_count_def)

lemma on_latch_count_append [simp]:
  "on_latch_count l (q1 @ q2) = on_latch_count l q1 + on_latch_count l q2"
  by (simp add: on_latch_count_def)

lemma on_latch_count_Cons [simp]:
  "on_latch_count l ((r, t) # q) = (if on_latch l t then 1 else 0) + on_latch_count l q"
  by (simp add: on_latch_count_def)

lemma on_latch_count_Nil [simp]: "on_latch_count l [] = 0"
  by (simp add: on_latch_count_def)

lemma drop_inv_returned:
  "todo s = [] \<Longrightarrow> \<forall>r \<in> set rs. (r, a) \<in> set (dropped s) \<Longrightarrow> drop_inv a l rs s"
  by (simp add: drop_inv_def)

lemma drop_inv_sending:
  assumes "rs = sent @ rem"
    and "todo s = map (\<lambda>r. Reactor_ScheduleReactorTask r (DropAndCountDown a l)) rem
                   @ [Latch_Wait l]"
    and "latch_count s l = length rem + on_latch_count l (pending s)"
    and "\<forall>(r, t) \<in> set (pending s). on_latch l t \<longrightarrow> t = DropAndCountDown a l"
    and "\<forall>r \<in> set sent. (r, DropAndCountDown a l) \<in> set (pending s)
                          \<or> (r, a) \<in> set (dropped s)"
  shows "drop_inv a l rs s"
  unfolding drop_inv_def using assms by blast

lemma drop_inv_start:
  "todo s = Latch_New l (length rs)
              # map (\<lambda>r. Reactor_ScheduleReactorTask r (DropAndCountDown a l)) rs
              @ [Latch_Wait l]
   \<Longrightarrow> on_latch_count l (pending s) = 0 \<Longrightarrow> drop_inv a l rs s"
  by (simp add: drop_inv_def)

lemma drop_inv_cases [consumes 1, case_names ret mid start]:
  assumes "drop_inv a l rs s"
  obtains
    (ret) "todo s = []" "\<forall>r \<in> set rs. (r, a) \<in> set (dropped s)"
  | (mid) sent rem where "rs = sent @ rem"
      "todo s = map (\<lambda>r. Reactor_ScheduleReactorTask r (DropAndCountDown a l)) rem
                  @ [Latch_Wait l]"
      "latch_count s l = length rem + on_latch_count l (pending s)"
      "\<forall>(r, t) \<in> set (pending s). on_latch l t \<longrightarrow> t = DropAndCountDown a l"
      "\<forall>r \<in> set sent. (r, DropAndCountDown a l) \<in> set (pending s)
                            \<or> (r, a) \<in> set (dropped s)"
  | (start) "todo s = Latch_New l (length rs)
                        # map (\<lambda>r. Reactor_ScheduleReactorTask r (DropAndCountDown a l)) rs
                        @ [Latch_Wait l]"
      "on_latch_count l (pending s) = 0"
  using assms unfolding drop_inv_def
  apply (elim disjE exE conjE)
    apply (erule (1) ret)
   apply (erule (4) mid)
  apply (erule (1) start)
  done

lemma drop_inv_step:
  assumes inv: "drop_inv a l rs s"
    and step: "sys_step s ev = Some s'"
    and fresh: "\<not> queues_on_latch l ev"
  shows "drop_inv a l rs s'"
proof (cases ev)
  case Caller_Step
  from inv show ?thesis
  proof (cases rule: drop_inv_cases)
    case ret
    with step Caller_Step show ?thesis by (simp add: sys_step_def)
  next
    case start
    with step Caller_Step have s': "s' = s\<lparr>latch_count := (latch_count s)(l := length rs),
        todo := map (\<lambda>r. Reactor_ScheduleReactorTask r (DropAndCountDown a l)) rs @ [Latch_Wait l]\<rparr>"
      by (simp add: sys_step_def)
    have "\<forall>(r, t) \<in> set (pending s). on_latch l t \<longrightarrow> t = DropAndCountDown a l"
      using start(2) by (auto simp: on_latch_count_0)
    with s' start(2) show ?thesis
      by (intro drop_inv_sending [of rs "[]" rs]) simp_all
  next
    case (mid sent rem)
    show ?thesis
    proof (cases rem)
      case Nil
      with mid step Caller_Step have 0: "latch_count s l = 0" and s': "s' = s\<lparr>todo := []\<rparr>"
        by (auto simp: sys_step_def split: if_splits)
      from 0 mid(3) have "on_latch_count l (pending s) = 0" by simp
      then have "\<forall>(r, t) \<in> set (pending s). \<not> on_latch l t"
        by (simp add: on_latch_count_0)
      then have "\<forall>r. (r, DropAndCountDown a l) \<notin> set (pending s)" by fastforce
      with mid(1,5) Nil have "\<forall>r \<in> set rs. (r, a) \<in> set (dropped s)" by auto
      with s' show ?thesis by (intro drop_inv_returned) simp_all
    next
      case (Cons r rem')
      with mid step Caller_Step have
        s': "s' = s\<lparr>pending := pending s @ [(r, DropAndCountDown a l)],
                   todo := map (\<lambda>r. Reactor_ScheduleReactorTask r (DropAndCountDown a l)) rem'
                           @ [Latch_Wait l]\<rparr>"
        by (simp add: sys_step_def)
      show ?thesis
        using mid Cons s' by (intro drop_inv_sending [of rs "sent @ [r]" rem']) auto
    qed
  qed
next
  case (Other_Schedule r t)
  with step have s': "s' = s\<lparr>pending := pending s @ [(r, t)]\<rparr>"
    by (simp add: sys_step_def)
  from fresh Other_Schedule have nt: "\<not> on_latch l t" by simp
  from inv show ?thesis
  proof (cases rule: drop_inv_cases)
    case ret
    then show ?thesis unfolding s' by (intro drop_inv_returned) simp_all
  next
    case (mid sent rem)
    then show ?thesis
      unfolding s' using nt by (intro drop_inv_sending [of rs sent rem]) auto
  next
    case start
    then show ?thesis unfolding s' using nt by (intro drop_inv_start) simp_all
  qed
next
  case (Reactor_Run r)
  with step obtain t q where tf: "take_first r (pending s) = Some (t, q)"
    and s': "s' = run_task r t (s\<lparr>pending := q\<rparr>)"
    by (auto simp: sys_step_def split: option.splits)
  from take_first_Some_split [OF tf] obtain q1 q2 where
    q: "pending s = q1 @ (r, t) # q2" "q = q1 @ q2" by blast
  from inv show ?thesis
  proof (cases rule: drop_inv_cases)
    case ret
    then show ?thesis
      unfolding s'
      by (intro drop_inv_returned) (auto simp: run_task_def split: reactor_task.splits)
  next
    case start
    from start(2) q have "\<not> on_latch l t" "on_latch_count l q = 0"
      by (auto split: if_splits)
    with start(1) show ?thesis
      unfolding s'
      by (intro drop_inv_start) (auto simp: run_task_def split: reactor_task.splits)
  next
    case (mid sent rem)
    show ?thesis
    proof (cases "on_latch l t")
      case False
      then have lc: "latch_count s' l = latch_count s l"
        unfolding s' by (auto simp: run_task_def split: reactor_task.splits)
      have td: "todo s' = todo s" "pending s' = q" "set (dropped s) \<subseteq> set (dropped s')"
        unfolding s' by (auto simp: run_task_def split: reactor_task.splits)
      have c: "on_latch_count l q = on_latch_count l (pending s)"
        using False q by simp
      have m5: "\<forall>r' \<in> set sent. (r', DropAndCountDown a l) \<in> set q \<or> (r', a) \<in> set (dropped s')"
      proof
        fix r' assume "r' \<in> set sent"
        with mid(5) have "(r', DropAndCountDown a l) \<in> set (pending s) \<or> (r', a) \<in> set (dropped s)"
          by blast
        moreover have "(r', DropAndCountDown a l) \<noteq> (r, t)" using False by auto
        ultimately show "(r', DropAndCountDown a l) \<in> set q \<or> (r', a) \<in> set (dropped s')"
          using q td(3) by auto
      qed
      have m4: "\<forall>(r, t) \<in> set q. on_latch l t \<longrightarrow> t = DropAndCountDown a l"
        using mid(4) q by auto
      show ?thesis
        using mid(1,2,3) lc td c m4 m5 by (intro drop_inv_sending [of rs sent rem]) simp_all
    next
      case True
      with mid(4) q have t: "t = DropAndCountDown a l" by auto
      have lc: "latch_count s' l = latch_count s l - 1"
        unfolding s' t by (simp add: run_task_def)
      have td: "todo s' = todo s" "pending s' = q" "dropped s' = dropped s @ [(r, a)]"
        unfolding s' t by (auto simp: run_task_def)
      have c: "on_latch_count l (pending s) = Suc (on_latch_count l q)"
        using True q by simp
      have m5: "\<forall>r' \<in> set sent. (r', DropAndCountDown a l) \<in> set q \<or> (r', a) \<in> set (dropped s')"
      proof
        fix r' assume "r' \<in> set sent"
        with mid(5) have "(r', DropAndCountDown a l) \<in> set (pending s) \<or> (r', a) \<in> set (dropped s)"
          by blast
        then show "(r', DropAndCountDown a l) \<in> set q \<or> (r', a) \<in> set (dropped s')"
          using q td(3) t by auto
      qed
      have m4: "\<forall>(r, t) \<in> set q. on_latch l t \<longrightarrow> t = DropAndCountDown a l"
        using mid(4) q by auto
      show ?thesis
        using mid(1,2,3) lc td c m4 m5 by (intro drop_inv_sending [of rs sent rem]) simp_all
    qed
  qed
qed

lemma drop_inv_run:
  "drop_inv a l rs s \<Longrightarrow> sys_run s evs = Some s' \<Longrightarrow> \<forall>ev \<in> set evs. \<not> queues_on_latch l ev
     \<Longrightarrow> drop_inv a l rs s'"
proof (induction evs arbitrary: s)
  case Nil
  then show ?case by simp
next
  case (Cons ev evs)
  from Cons.prems(2) obtain s1 where 1: "sys_step s ev = Some s1" and 2: "sys_run s1 evs = Some s'"
    by (auto split: option.splits)
  have "drop_inv a l rs s1"
    using drop_inv_step [OF Cons.prems(1) 1] Cons.prems(3) by simp
  then show ?case
    using Cons.IH 2 Cons.prems(3) by simp
qed

lemma BreakConnectivityWith_new:
  "a \<notin> broken_connectivity m \<Longrightarrow>
     fst (BreakConnectivityWith m a l) =
       Latch_New l (length (reactors m))
         # map (\<lambda>r. Reactor_ScheduleReactorTask r (DropAndCountDown a l)) (reactors m)
         @ [Latch_Wait l]"
  by (simp add: BreakConnectivityWith_def Let_def)

lemma BreakConnectivityWith_marked:
  "a \<in> broken_connectivity m \<Longrightarrow> BreakConnectivityWith m a l = ([], m)"
  by (auto simp: BreakConnectivityWith_def Let_def)

text \<open>
  C9, as stated, fails. A first caller has marked \<open>V4 1\<close>, made latch 7 and queued the
  drop task on both reactors; it is held at \<^verbatim>\<open>Wait\<close>, and no reactor has run its task
  yet. A second \<^verbatim>\<open>BreakConnectivityWith\<close> for the same address finds it marked: it makes
  no latch, queues nothing, waits for nothing and returns, while no reactor has
  dropped the address.
\<close>

theorem BreakConnectivityWith_counterexample:
  "sys_run \<lparr>pending = [], dropped = [], latch_count = (\<lambda>l. 0),
            todo = fst (BreakConnectivityWith (Messenger_new ''m'' 2 1) (V4 1) 7)\<rparr>
     [Caller_Step, Caller_Step, Caller_Step]
     = Some \<lparr>pending = [(Reactor 0, DropAndCountDown (V4 1) 7),
                          (Reactor 1, DropAndCountDown (V4 1) 7)],
              dropped = [], latch_count = (\<lambda>l. 0)(7 := 2), todo = [Latch_Wait 7]\<rparr>
   \<and> sys_step \<lparr>pending = [(Reactor 0, DropAndCountDown (V4 1) 7),
                           (Reactor 1, DropAndCountDown (V4 1) 7)],
               dropped = [], latch_count = (\<lambda>l. 0)(7 := 2), todo = [Latch_Wait 7]\<rparr>
        Caller_Step = None
   \<and> BreakConnectivityWith
        (snd (BreakConnectivityWith (Messenger_new ''m'' 2 1) (V4 1) 7)) (V4 1) 8
      = ([], snd (BreakConnectivityWith (Messenger_new ''m'' 2 1) (V4 1) 7))"
proof -
  let ?m0 = "Messenger_new ''m'' 2 1"
  have new: "V4 1 \<notin> broken_connectivity ?m0"
    by (simp add: Messenger_new_def)
  have rs: "reactors ?m0 = [Reactor 0, Reactor 1]"
    by (simp add: Messenger_new_def upt_rec)
  have es: "fst (BreakConnectivityWith ?m0 (V4 1) 7) =
              [Latch_New 7 2,
               Reactor_ScheduleReactorTask (Reactor 0) (DropAndCountDown (V4 1) 7),
               Reactor_ScheduleReactorTask (Reactor 1) (DropAndCountDown (V4 1) 7),
               Latch_Wait 7]"
    by (simp add: BreakConnectivityWith_new [OF new] rs)
  have run: "sys_run \<lparr>pending = [], dropped = [], latch_count = (\<lambda>l. 0),
            todo = fst (BreakConnectivityWith ?m0 (V4 1) 7)\<rparr>
     [Caller_Step, Caller_Step, Caller_Step]
     = Some \<lparr>pending = [(Reactor 0, DropAndCountDown (V4 1) 7),
                          (Reactor 1, DropAndCountDown (V4 1) 7)],
              dropped = [], latch_count = (\<lambda>l. 0)(7 := 2), todo = [Latch_Wait 7]\<rparr>"
    by (simp add: es sys_step_def)
  have held: "sys_step \<lparr>pending = [(Reactor 0, DropAndCountDown (V4 1) 7),
                           (Reactor 1, DropAndCountDown (V4 1) 7)],
               dropped = [], latch_count = (\<lambda>l. 0)(7 := 2), todo = [Latch_Wait 7]\<rparr>
        Caller_Step = None"
    by (simp add: sys_step_def)
  have marked: "V4 1 \<in> broken_connectivity (snd (BreakConnectivityWith ?m0 (V4 1) 7))"
    by (simp add: BreakConnectivityWith_def Let_def)
  have second: "BreakConnectivityWith (snd (BreakConnectivityWith ?m0 (V4 1) 7)) (V4 1) 8
      = ([], snd (BreakConnectivityWith ?m0 (V4 1) 7))"
    using marked by (rule BreakConnectivityWith_marked)
  from run held second show ?thesis by blast
qed

text \<open>
  C9, amended. A call of \<^verbatim>\<open>BreakConnectivityWith\<close> for an address that is already
  marked makes no call at all and returns. A call for an address that is not marked
  makes a latch whose count is the number of reactors, queues on every reactor the
  task that drops the address and counts the latch down, and waits on the latch; when
  it has returned, in any interleaving of its steps with the reactors running their
  tasks and with other threads queueing tasks that do not count this latch down, every
  reactor has dropped the address.
\<close>

theorem BreakConnectivityWith_rendezvous:
  "(a \<in> broken_connectivity m \<longrightarrow> fst (BreakConnectivityWith m a l) = [])
   \<and> (a \<notin> broken_connectivity m \<longrightarrow>
        fst (BreakConnectivityWith m a l) =
          Latch_New l (length (reactors m))
            # map (\<lambda>r. Reactor_ScheduleReactorTask r (DropAndCountDown a l)) (reactors m)
            @ [Latch_Wait l]
        \<and> (\<forall>s evs s'.
              todo s = fst (BreakConnectivityWith m a l)
              \<and> (\<forall>(r, t) \<in> set (pending s). \<not> on_latch l t)
              \<and> (\<forall>ev \<in> set evs. \<not> queues_on_latch l ev)
              \<and> sys_run s evs = Some s'
              \<and> todo s' = []
              \<longrightarrow> (\<forall>r \<in> set (reactors m). (r, a) \<in> set (dropped s'))))"
proof (cases "a \<in> broken_connectivity m")
  case True
  then show ?thesis by (simp add: BreakConnectivityWith_marked)
next
  case False
  note es = BreakConnectivityWith_new [OF False]
  have "\<forall>r \<in> set (reactors m). (r, a) \<in> set (dropped s')"
    if st: "todo s = fst (BreakConnectivityWith m a l)"
      and q: "\<forall>(r, t) \<in> set (pending s). \<not> on_latch l t"
      and evs: "\<forall>ev \<in> set evs. \<not> queues_on_latch l ev"
      and run: "sys_run s evs = Some s'"
      and ret: "todo s' = []"
    for s evs s'
  proof -
    have "on_latch_count l (pending s) = 0"
      using q by (simp add: on_latch_count_0)
    with st es have "drop_inv a l (reactors m) s"
      by (intro drop_inv_start) simp_all
    then have "drop_inv a l (reactors m) s'"
      using run evs by (rule drop_inv_run)
    then show ?thesis
      using ret by (cases rule: drop_inv_cases) simp_all
  qed
  with False es show ?thesis by blast
qed

theorem BreakConnectivityWith_rendezvous_witness:
  "V4 1 \<notin> broken_connectivity (Messenger_new ''m'' 2 1)
   \<and> sys_run \<lparr>pending = [(Reactor 1, Delayed \<lparr>func = 3, delay = 0, task_id = 0,
                                                has_messenger = False\<rparr>)],
              dropped = [], latch_count = (\<lambda>l. 0),
              todo = fst (BreakConnectivityWith (Messenger_new ''m'' 2 1) (V4 1) 7)\<rparr>
       [Caller_Step, Caller_Step, Reactor_Run (Reactor 0), Reactor_Run (Reactor 1), Caller_Step,
        Other_Schedule (Reactor 0) (DropAndCountDown (V4 2) 8),
        Reactor_Run (Reactor 1), Caller_Step]
      = Some \<lparr>pending = [(Reactor 0, DropAndCountDown (V4 2) 8)],
               dropped = [(Reactor 0, V4 1), (Reactor 1, V4 1)],
               latch_count = (\<lambda>l. 0)(7 := 0), todo = []\<rparr>
   \<and> (Reactor 0, V4 1) \<in> set (dropped
         (the (sys_run \<lparr>pending = [(Reactor 1, Delayed \<lparr>func = 3, delay = 0, task_id = 0,
                                                        has_messenger = False\<rparr>)],
              dropped = [], latch_count = (\<lambda>l. 0),
              todo = fst (BreakConnectivityWith (Messenger_new ''m'' 2 1) (V4 1) 7)\<rparr>
       [Caller_Step, Caller_Step, Reactor_Run (Reactor 0), Reactor_Run (Reactor 1), Caller_Step,
        Other_Schedule (Reactor 0) (DropAndCountDown (V4 2) 8),
        Reactor_Run (Reactor 1), Caller_Step])))
   \<and> (Reactor 1, V4 1) \<in> set (dropped
         (the (sys_run \<lparr>pending = [(Reactor 1, Delayed \<lparr>func = 3, delay = 0, task_id = 0,
                                                        has_messenger = False\<rparr>)],
              dropped = [], latch_count = (\<lambda>l. 0),
              todo = fst (BreakConnectivityWith (Messenger_new ''m'' 2 1) (V4 1) 7)\<rparr>
       [Caller_Step, Caller_Step, Reactor_Run (Reactor 0), Reactor_Run (Reactor 1), Caller_Step,
        Other_Schedule (Reactor 0) (DropAndCountDown (V4 2) 8),
        Reactor_Run (Reactor 1), Caller_Step])))"
proof -
  let ?m0 = "Messenger_new ''m'' 2 1"
  let ?s = "\<lparr>pending = [(Reactor 1, Delayed \<lparr>func = 3, delay = 0, task_id = 0,
                                                has_messenger = False\<rparr>)],
              dropped = [], latch_count = (\<lambda>l. 0),
              todo = fst (BreakConnectivityWith ?m0 (V4 1) 7)\<rparr>"
  let ?evs = "[Caller_Step, Caller_Step, Reactor_Run (Reactor 0), Reactor_Run (Reactor 1),
        Caller_Step, Other_Schedule (Reactor 0) (DropAndCountDown (V4 2) 8),
        Reactor_Run (Reactor 1), Caller_Step]"
  let ?s' = "\<lparr>pending = [(Reactor 0, DropAndCountDown (V4 2) 8)],
               dropped = [(Reactor 0, V4 1), (Reactor 1, V4 1)],
               latch_count = (\<lambda>l. 0)(7 := 0), todo = []\<rparr>"
  have new: "V4 1 \<notin> broken_connectivity ?m0"
    by (simp add: Messenger_new_def)
  have rs: "reactors ?m0 = [Reactor 0, Reactor 1]"
    by (simp add: Messenger_new_def upt_rec)
  have es: "fst (BreakConnectivityWith ?m0 (V4 1) 7) =
              [Latch_New 7 2,
               Reactor_ScheduleReactorTask (Reactor 0) (DropAndCountDown (V4 1) 7),
               Reactor_ScheduleReactorTask (Reactor 1) (DropAndCountDown (V4 1) 7),
               Latch_Wait 7]"
    by (simp add: BreakConnectivityWith_new [OF new] rs)
  have run: "sys_run ?s ?evs = Some ?s'"
    by (simp add: es sys_step_def run_task_def)
  have st: "todo ?s = fst (BreakConnectivityWith ?m0 (V4 1) 7)" by simp
  have q: "\<forall>(r, t) \<in> set (pending ?s). \<not> on_latch 7 t" by simp
  have evs: "\<forall>ev \<in> set ?evs. \<not> queues_on_latch 7 ev" by simp
  have ret: "todo ?s' = []" by simp
  have all: "\<forall>r \<in> set (reactors ?m0). (r, V4 1) \<in> set (dropped ?s')"
    using BreakConnectivityWith_rendezvous [of "V4 1" ?m0 7, THEN conjunct2, rule_format,
        OF new, THEN conjunct2, rule_format, of ?s ?evs ?s'] st q evs run ret
    by blast
  then have d: "(Reactor 0, V4 1) \<in> set (dropped (the (sys_run ?s ?evs)))"
    "(Reactor 1, V4 1) \<in> set (dropped (the (sys_run ?s ?evs)))"
    unfolding run by (simp_all add: rs)
  from new run d show ?thesis by blast
qed

end
